theory Spec2Isabelle
  imports Complex_Main "HOL-Library.Sublist"
begin

section \<open>Texts, JavaScript string methods and the SQL LIKE operator\<close>

text \<open>
  A text (a JavaScript string, a TEXT value of SQLite) is held as the bytes of its UTF-8
  encoding: an ASCII character is one byte below 128, any other character is a byte from
  192 on followed by bytes from 128 to 191.
\<close>

text \<open>
  The lower case of an ASCII character: \<open>sqlite3Tolower\<close> of SQLite, and what
  \<open>String.prototype.toLowerCase\<close> does to a character below 128.
\<close>

definition ascii_tolower :: "char \<Rightarrow> char" where
  "ascii_tolower c =
     (case map_of (zip ''ABCDEFGHIJKLMNOPQRSTUVWXYZ'' ''abcdefghijklmnopqrstuvwxyz'') c of
        Some l \<Rightarrow> l
      | None \<Rightarrow> c)"

text \<open>
  \<open>s.toLowerCase()\<close>. On a text of ASCII characters it folds the letters A to Z. On a
  text with other characters the result comes from the Unicode tables of the JavaScript
  engine, which are no part of the program: \<open>unicode_lower\<close> stands for
  \<open>toLowerCase\<close> on such texts, and every property below holds for every function in
  its place.
\<close>

definition toLowerCase :: "(string \<Rightarrow> string) \<Rightarrow> string \<Rightarrow> string" where
  "toLowerCase unicode_lower s =
     (if list_all (\<lambda>c. (of_char c :: nat) < 128) s then map ascii_tolower s
      else unicode_lower s)"

text \<open>
  The characters that \<open>String.prototype.trim\<close> strips, each in UTF-8: the WhiteSpace
  and LineTerminator code points of ECMAScript, which are U+0009 to U+000D, U+0020,
  U+00A0, U+1680, U+2000 to U+200A, U+2028, U+2029, U+202F, U+205F, U+3000 and U+FEFF.
\<close>

definition whitespace :: "string list" where
  "whitespace =
     [[CHR 0x09], [CHR 0x0A], [CHR 0x0B], [CHR 0x0C], [CHR 0x0D], [CHR 0x20],
      [CHR 0xC2, CHR 0xA0],
      [CHR 0xE1, CHR 0x9A, CHR 0x80],
      [CHR 0xE2, CHR 0x80, CHR 0x80], [CHR 0xE2, CHR 0x80, CHR 0x81],
      [CHR 0xE2, CHR 0x80, CHR 0x82], [CHR 0xE2, CHR 0x80, CHR 0x83],
      [CHR 0xE2, CHR 0x80, CHR 0x84], [CHR 0xE2, CHR 0x80, CHR 0x85],
      [CHR 0xE2, CHR 0x80, CHR 0x86], [CHR 0xE2, CHR 0x80, CHR 0x87],
      [CHR 0xE2, CHR 0x80, CHR 0x88], [CHR 0xE2, CHR 0x80, CHR 0x89],
      [CHR 0xE2, CHR 0x80, CHR 0x8A],
      [CHR 0xE2, CHR 0x80, CHR 0xA8], [CHR 0xE2, CHR 0x80, CHR 0xA9],
      [CHR 0xE2, CHR 0x80, CHR 0xAF],
      [CHR 0xE2, CHR 0x81, CHR 0x9F],
      [CHR 0xE3, CHR 0x80, CHR 0x80],
      [CHR 0xEF, CHR 0xBB, CHR 0xBF]]"

text \<open>The text without its leading characters from the list \<open>ws\<close>.\<close>

function strip_leading :: "string list \<Rightarrow> string \<Rightarrow> string" where
  "strip_leading ws s =
     (case find (\<lambda>w. w \<noteq> [] \<and> prefix w s) ws of
        None \<Rightarrow> s
      | Some w \<Rightarrow> strip_leading ws (drop (length w) s))"
  by pat_completeness auto
termination
proof (relation "measure (\<lambda>(ws, s). length s)")
  show "wf (measure (\<lambda>(ws, s). length s))" by simp
next
  fix ws :: "string list" and s w :: string
  assume "find (\<lambda>w. w \<noteq> [] \<and> prefix w s) ws = Some w"
  then have "w \<noteq> []" and "prefix w s"
    by (auto simp: find_Some_iff)
  then have "s \<noteq> []" by auto
  with \<open>w \<noteq> []\<close> show "((ws, drop (length w) s), (ws, s)) \<in> measure (\<lambda>(ws, s). length s)"
    by simp
qed

text \<open>\<open>s.trim()\<close>: white space is stripped from the start and from the end.\<close>

definition trim :: "string \<Rightarrow> string" where
  "trim s = rev (strip_leading (map rev whitespace) (rev (strip_leading whitespace s)))"

text \<open>\<open>s.split(d)\<close> for a one-character separator: never the empty array.\<close>

fun split :: "char \<Rightarrow> string \<Rightarrow> string list" where
  "split d [] = [[]]"
| "split d (c # cs) =
     (if c = d then [] # split d cs
      else (case split d cs of [] \<Rightarrow> [[c]] | w # ws \<Rightarrow> (c # w) # ws))"

text \<open>\<open>xs.join(sep)\<close>.\<close>

fun join :: "string \<Rightarrow> string list \<Rightarrow> string" where
  "join sep [] = []"
| "join sep [x] = x"
| "join sep (x # y # ys) = x @ sep @ join sep (y # ys)"

text \<open>
  The text after its first character, whose first byte is \<open>c\<close> (\<open>SQLITE_SKIP_UTF8\<close>):
  a byte from 192 on takes the bytes from 128 to 191 that follow it along.
\<close>

definition is_continuation :: "char \<Rightarrow> bool" where
  "is_continuation c = (128 \<le> (of_char c :: nat) \<and> (of_char c :: nat) < 192)"

definition skip_utf8 :: "char \<Rightarrow> string \<Rightarrow> string" where
  "skip_utf8 c cs = (if 192 \<le> (of_char c :: nat) then dropWhile is_continuation cs else cs)"

text \<open>
  SQLite's \<open>text LIKE pattern\<close> without an ESCAPE clause: \<open>%\<close> matches any run of
  characters, \<open>_\<close> matches any one character, every other character matches itself up
  to the case of ASCII letters. The first argument is the pattern.
\<close>

function like :: "string \<Rightarrow> string \<Rightarrow> bool" where
  "like [] s = (s = [])"
| "like (p # ps) [] = (p = CHR ''%'' \<and> like ps [])"
| "like (p # ps) (c # cs) =
     (if p = CHR ''%'' then like ps (c # cs) \<or> like (p # ps) (skip_utf8 c cs)
      else if p = CHR ''_'' then like ps (skip_utf8 c cs)
      else ascii_tolower p = ascii_tolower c \<and> like ps cs)"
  by pat_completeness auto
termination
  by (relation "measure (\<lambda>(p, s). length p + length s)")
     (auto simp: skip_utf8_def le_imp_less_Suc length_dropWhile_le
           intro: le_less_trans [OF length_dropWhile_le])

text \<open>A JavaScript string-or-null value is truthy when it is a non-empty string.\<close>

definition truthy :: "string option \<Rightarrow> bool" where
  "truthy v = (case v of None \<Rightarrow> False | Some s \<Rightarrow> s \<noteq> [])"

text \<open>\<open>v || null\<close> on a string-or-null (or undefined) value.\<close>

definition or_null :: "string option \<Rightarrow> string option" where
  "or_null v = (if truthy v then v else None)"

text \<open>An optional argument (\<open>note?: string\<close>): \<open>undefined\<close>, or a value that was passed.\<close>

datatype 'a optional = Undefined | Given 'a


section \<open>The data model\<close>

text \<open>
  One row of the table \<open>follows\<close> (\<open>initSchema\<close>). A nullable column is an option;
  \<open>synced_at\<close> and the entries of \<open>sync_log\<close> are timestamps, held as the milliseconds
  that \<open>new Date(...).getTime()\<close> reads from them.
\<close>

record follow_row =
  user_id :: string
  username :: string
  name :: "string option"
  profile_image_url :: "string option"
  description :: "string option"
  followers_count :: "int option"
  following_count :: "int option"
  verified_type :: "string option"
  is_blue_verified :: "int option"
  location :: "string option"
  created_at :: "string option"
  "note" :: "string option"
  tags :: "string option"
  synced_at :: "int option"

text \<open>The per-user SQL storage of \<open>CrmDurableObject\<close>: both tables, in rowid order.\<close>

record store =
  follows :: "follow_row list"
  sync_log :: "int list"

text \<open>One account object of the upstream \<open>followings\<close> array, with the fields \<open>syncFollows\<close> reads.\<close>

record following =
  f_id :: string
  f_userName :: string
  f_name :: "string option"
  f_profile_image_url_https :: "string option"
  f_description :: "string option"
  f_followers_count :: "int option"
  f_following_count :: "int option"
  f_verifiedType :: "string option"
  f_verified :: bool
  f_location :: "string option"
  f_createdAt :: "string option"

text \<open>The JSON body of one upstream page.\<close>

record followings_page =
  followings :: "following list option"
  has_next_page :: bool
  next_cursor :: "string option"

text \<open>
  What one call of \<open>fetch\<close> gives: a rejected promise, or a response with its status and
  its body (\<open>None\<close> when \<open>response.json()\<close> fails).
\<close>

record http_response =
  status :: nat
  body :: "followings_page option"

datatype fetch_outcome = NetworkFailure | Received http_response

text \<open>
  The upstream source as one run sees it: the k-th element answers the k-th request of
  the run, as a function of the requested URL.
\<close>

type_synonym upstream = "(string \<Rightarrow> fetch_outcome) list"

datatype js_error =
    FetchFailed nat
  | NetworkError
  | ParseError
  | UserNotAuthenticated
  | TypeError

record sync_result =
  synced :: nat
  pages :: nat


section \<open>SQL statements on the table follows\<close>

text \<open>
  \<open>INSERT OR REPLACE\<close>: \<open>user_id\<close> is the primary key, so a row with the same
  \<open>user_id\<close> is deleted and the new row is appended.
\<close>

definition insert_or_replace :: "follow_row \<Rightarrow> follow_row list \<Rightarrow> follow_row list" where
  "insert_or_replace r tbl = filter (\<lambda>x. user_id x \<noteq> user_id r) tbl @ [r]"

datatype column = Note | Tags

fun set_column :: "column \<times> string option \<Rightarrow> follow_row \<Rightarrow> follow_row" where
  "set_column (Note, v) r = r\<lparr>note := v\<rparr>"
| "set_column (Tags, v) r = r\<lparr>tags := v\<rparr>"

text \<open>
  \<open>UPDATE follows SET c1 = ?, ... WHERE username = ?\<close>: the new table and
  \<open>rowsWritten\<close>, the number of rows the WHERE clause matched.
\<close>

definition sql_update ::
  "(column \<times> string option) list \<Rightarrow> string \<Rightarrow> follow_row list \<Rightarrow> follow_row list \<times> nat" where
  "sql_update assignments uname tbl =
     (map (\<lambda>r. if username r = uname then fold set_column assignments r else r) tbl,
      length (filter (\<lambda>r. username r = uname) tbl))"


section \<open>The sync log\<close>

text \<open>\<open>SELECT last_sync_at FROM sync_log ORDER BY last_sync_at DESC LIMIT 1\<close>.\<close>

definition getLastSyncTime :: "store \<Rightarrow> int option" where
  "getLastSyncTime st =
     (case rev (sort (sync_log st)) of [] \<Rightarrow> None | t # _ \<Rightarrow> Some t)"

text \<open>\<open>INSERT INTO sync_log (last_sync_at) VALUES (CURRENT_TIMESTAMP)\<close>.\<close>

definition updateSyncTime :: "int \<Rightarrow> store \<Rightarrow> store" where
  "updateSyncTime current_timestamp st = st\<lparr>sync_log := sync_log st @ [current_timestamp]\<rparr>"


section \<open>syncFollows\<close>

text \<open>
  The map \<open>existingMap\<close> of \<open>syncFollows\<close>: the rows with a note or tags, in table order,
  each stored under its username (a later row overwrites an earlier one).
\<close>

definition existingMap :: "follow_row list \<Rightarrow> (string \<rightharpoonup> string option \<times> string option)" where
  "existingMap rows =
     fold (\<lambda>row m. m(username row \<mapsto> (note row, tags row)))
       (filter (\<lambda>row. note row \<noteq> None \<or> tags row \<noteq> None) rows) Map.empty"

text \<open>The row that the INSERT of \<open>syncFollows\<close> binds for one account.\<close>

definition follow_to_row ::
  "(string \<rightharpoonup> string option \<times> string option) \<Rightarrow> int \<Rightarrow> following \<Rightarrow> follow_row" where
  "follow_to_row existing_map current_timestamp follow =
     (let existing = existing_map (f_userName follow) in
      \<lparr>user_id = f_id follow,
       username = f_userName follow,
       name = f_name follow,
       profile_image_url = f_profile_image_url_https follow,
       description = f_description follow,
       followers_count = f_followers_count follow,
       following_count = f_following_count follow,
       verified_type = f_verifiedType follow,
       is_blue_verified = Some (if f_verified follow then 1 else 0),
       location = f_location follow,
       created_at = f_createdAt follow,
       note = or_null (case existing of None \<Rightarrow> None | Some e \<Rightarrow> fst e),
       tags = or_null (case existing of None \<Rightarrow> None | Some e \<Rightarrow> snd e),
       synced_at = Some current_timestamp\<rparr>)"

definition insert_follow ::
  "(string \<rightharpoonup> string option \<times> string option) \<Rightarrow> int \<Rightarrow> following \<Rightarrow>
     follow_row list \<Rightarrow> follow_row list" where
  "insert_follow existing_map current_timestamp follow tbl =
     insert_or_replace (follow_to_row existing_map current_timestamp follow) tbl"

text \<open>The request URL of a page.\<close>

definition followings_url :: "string \<Rightarrow> string option \<Rightarrow> string" where
  "followings_url uname cursor =
     (case cursor of
        Some c \<Rightarrow>
          if c \<noteq> []
          then ''https://api.twitterapi.io/twitter/user/followings?userName='' @ uname
                 @ ''&cursor='' @ c
          else ''https://api.twitterapi.io/twitter/user/followings?userName='' @ uname
      | None \<Rightarrow> ''https://api.twitterapi.io/twitter/user/followings?userName='' @ uname)"

text \<open>\<open>response.ok\<close>.\<close>

definition response_ok :: "http_response \<Rightarrow> bool" where
  "response_ok response = (200 \<le> status response \<and> status response \<le> 299)"

text \<open>The fetch of one page up to \<open>data = await response.json()\<close>, with its three throws.\<close>

definition fetch_page :: "fetch_outcome \<Rightarrow> js_error + followings_page" where
  "fetch_page outcome =
     (case outcome of
        NetworkFailure \<Rightarrow> Inl NetworkError
      | Received response \<Rightarrow>
          if \<not> response_ok response then Inl (FetchFailed (status response))
          else (case body response of None \<Rightarrow> Inl ParseError | Some data \<Rightarrow> Inr data))"

text \<open>\<open>follows = data.followings || []\<close>.\<close>

definition page_follows :: "followings_page \<Rightarrow> following list" where
  "page_follows data = (case followings data of None \<Rightarrow> [] | Some fs \<Rightarrow> fs)"

text \<open>
  The condition of the do-while loop, after \<open>cursor = data.next_cursor\<close>:
  \<open>(follows.length >= 200 || data.has_next_page) && cursor\<close>.
\<close>

definition loop_continues :: "followings_page \<Rightarrow> bool" where
  "loop_continues data =
     ((200 \<le> length (page_follows data) \<or> has_next_page data) \<and> truthy (next_cursor data))"

text \<open>
  The do-while loop. It consumes one element of the upstream per iteration and is
  \<open>None\<close> when the loop wants a further page that the upstream list does not hold. A
  throw leaves the store as it is at that point. \<open>clock k\<close> is the value of
  \<open>CURRENT_TIMESTAMP\<close> while page \<open>k\<close> is inserted (\<open>clock 0\<close>: at the start of the run).
\<close>

fun sync_loop ::
  "(string \<rightharpoonup> string option \<times> string option) \<Rightarrow> (nat \<Rightarrow> int) \<Rightarrow> string \<Rightarrow> upstream \<Rightarrow>
     string option \<Rightarrow> nat \<Rightarrow> nat \<Rightarrow> store \<Rightarrow> ((js_error + sync_result) \<times> store) option" where
  "sync_loop existing_map clock uname [] cursor totalFollows pageCount st = None"
| "sync_loop existing_map clock uname (respond # rest) cursor totalFollows pageCount st =
     (let pageCount' = pageCount + 1;
          url = followings_url uname cursor
      in case fetch_page (respond url) of
           Inl e \<Rightarrow> Some (Inl e, st)
         | Inr data \<Rightarrow>
             (let st' = st\<lparr>follows :=
                          fold (insert_follow existing_map (clock pageCount'))
                            (page_follows data) (follows st)\<rparr>;
                  totalFollows' = totalFollows + length (page_follows data)
              in if loop_continues data
                 then sync_loop existing_map clock uname rest (next_cursor data)
                        totalFollows' pageCount' st'
                 else Some (Inr \<lparr>synced = totalFollows', pages = pageCount'\<rparr>, st')))"

definition syncFollows ::
  "(nat \<Rightarrow> int) \<Rightarrow> upstream \<Rightarrow> string \<Rightarrow> store \<Rightarrow> ((js_error + sync_result) \<times> store) option" where
  "syncFollows clock up uname st =
     (let st1 = updateSyncTime (clock 0) st;
          existing_map = existingMap (follows st1);
          st2 = st1\<lparr>follows := []\<rparr>
      in sync_loop existing_map clock uname up None 0 0 st2)"

text \<open>
  The outcomes that a run receives: the answers to the requests that the loop makes, in
  order, up to the first throw, the first page after which the loop stops, or the end
  of the upstream list.
\<close>

fun received :: "string \<Rightarrow> upstream \<Rightarrow> string option \<Rightarrow> fetch_outcome list" where
  "received uname [] cursor = []"
| "received uname (respond # rest) cursor =
     (let outcome = respond (followings_url uname cursor)
      in outcome #
           (case fetch_page outcome of
              Inl e \<Rightarrow> []
            | Inr data \<Rightarrow>
                if loop_continues data then received uname rest (next_cursor data) else []))"

text \<open>The pages among these outcomes, and the accounts on them.\<close>

definition pages_of :: "fetch_outcome list \<Rightarrow> followings_page list" where
  "pages_of outcomes =
     concat (map (\<lambda>outcome. case fetch_page outcome of Inl e \<Rightarrow> [] | Inr data \<Rightarrow> [data]) outcomes)"

definition fetched_follows :: "string \<Rightarrow> upstream \<Rightarrow> following list" where
  "fetched_follows uname up = concat (map page_follows (pages_of (received uname up None)))"


section \<open>getFollows\<close>

text \<open>
  \<open>ORDER BY followers_count DESC\<close> as a stable insertion sort; NULL is the smallest
  value of SQLite's order, so it comes last.
\<close>

definition count_ge :: "int option \<Rightarrow> int option \<Rightarrow> bool" where
  "count_ge a b =
     (case b of None \<Rightarrow> True | Some y \<Rightarrow> (case a of None \<Rightarrow> False | Some x \<Rightarrow> y \<le> x))"

fun insert_desc :: "follow_row \<Rightarrow> follow_row list \<Rightarrow> follow_row list" where
  "insert_desc r [] = [r]"
| "insert_desc r (x # xs) =
     (if count_ge (followers_count r) (followers_count x) then r # x # xs
      else x # insert_desc r xs)"

definition order_by_followers_count_desc :: "follow_row list \<Rightarrow> follow_row list" where
  "order_by_followers_count_desc rows = foldr insert_desc rows []"

text \<open>\<open>tags LIKE ?\<close> with the parameter \<open>`%${tag}%`\<close>; NULL matches nothing.\<close>

definition tags_like :: "string \<Rightarrow> follow_row \<Rightarrow> bool" where
  "tags_like tag_text r =
     (case tags r of None \<Rightarrow> False | Some s \<Rightarrow> like (''%'' @ tag_text @ ''%'') s)"

definition getFollows :: "string option \<Rightarrow> store \<Rightarrow> follow_row list" where
  "getFollows tag_filter st =
     order_by_followers_count_desc
       (case tag_filter of
          None \<Rightarrow> follows st
        | Some t \<Rightarrow> if t \<noteq> [] then filter (tags_like t) (follows st) else follows st)"


section \<open>updateContact and updateBulk\<close>

record update_result =
  updated :: bool
  error :: "string option"

definition updateContact ::
  "string \<Rightarrow> string option optional \<Rightarrow> string option optional \<Rightarrow> store \<Rightarrow>
     update_result \<times> store" where
  "updateContact uname note_arg tags_arg st =
     (let updates =
            (case note_arg of Undefined \<Rightarrow> [] | Given v \<Rightarrow> [(Note, v)]) @
            (case tags_arg of Undefined \<Rightarrow> [] | Given v \<Rightarrow> [(Tags, v)])
      in if length updates = 0
         then (\<lparr>updated = False, error = Some ''No updates provided''\<rparr>, st)
         else (let result = sql_update updates uname (follows st)
               in (\<lparr>updated = (0 < snd result), error = None\<rparr>,
                   st\<lparr>follows := fst result\<rparr>)))"

record bulk_update =
  b_username :: string
  b_tags :: "string option"
  b_note :: "string option optional"

record bulk_result =
  success :: nat
  errors :: nat
  errorDetails :: "string list"

text \<open>
  The loop of \<open>updateBulk\<close>. \<open>sql_update\<close> does not throw, so the catch branch of the
  source has no counterpart.
\<close>

fun updateBulk_loop ::
  "bulk_update list \<Rightarrow> nat \<Rightarrow> nat \<Rightarrow> string list \<Rightarrow> store \<Rightarrow> bulk_result \<times> store" where
  "updateBulk_loop [] successCount errorCount errs st =
     (\<lparr>success = successCount, errors = errorCount, errorDetails = errs\<rparr>, st)"
| "updateBulk_loop (update # rest) successCount errorCount errs st =
     (let updateFields =
            [(Tags, b_tags update)] @
            (case b_note update of Undefined \<Rightarrow> [] | Given v \<Rightarrow> [(Note, v)]);
          result = sql_update updateFields (b_username update) (follows st);
          st' = st\<lparr>follows := fst result\<rparr>
      in if 0 < snd result
         then updateBulk_loop rest (successCount + 1) errorCount errs st'
         else updateBulk_loop rest successCount (errorCount + 1)
                (errs @ [''Username '' @ [CHR 0x27] @ b_username update @ [CHR 0x27]
                           @ '' not found''])
                st')"

definition updateBulk :: "bulk_update list \<Rightarrow> store \<Rightarrow> bulk_result \<times> store" where
  "updateBulk updates st = updateBulk_loop updates 0 0 [] st"


section \<open>removeTag\<close>

text \<open>
  \<open>SELECT username, tags FROM follows
     WHERE tags IS NOT NULL AND tags != '' AND tags LIKE ?\<close>.
\<close>

definition removeTag_select :: "string \<Rightarrow> follow_row list \<Rightarrow> follow_row list" where
  "removeTag_select tagToRemove tbl =
     filter (\<lambda>r. tags r \<noteq> None \<and> tags r \<noteq> Some [] \<and> tags_like tagToRemove r) tbl"

text \<open>\<open>newTags\<close> for the tags text of one selected row.\<close>

definition newTags :: "(string \<Rightarrow> string) \<Rightarrow> string \<Rightarrow> string \<Rightarrow> string option" where
  "newTags unicode_lower tagToRemove tags_text =
     (let currentTags =
            filter (\<lambda>t. toLowerCase unicode_lower t \<noteq> toLowerCase unicode_lower tagToRemove)
              (map trim (split CHR '','' tags_text))
      in if 0 < length currentTags then Some (join '', '' currentTags) else None)"

text \<open>The loop over the selected rows, which are a snapshot taken before the first UPDATE.\<close>

fun removeTag_loop ::
  "(string \<Rightarrow> string) \<Rightarrow> string \<Rightarrow> follow_row list \<Rightarrow> nat \<Rightarrow> store \<Rightarrow> nat \<times> store" where
  "removeTag_loop unicode_lower tagToRemove [] updatedCount st = (updatedCount, st)"
| "removeTag_loop unicode_lower tagToRemove (follow # rest) updatedCount st =
     (case tags follow of
        None \<Rightarrow> removeTag_loop unicode_lower tagToRemove rest updatedCount st
      | Some s \<Rightarrow>
          if s = [] then removeTag_loop unicode_lower tagToRemove rest updatedCount st
          else (let result = sql_update [(Tags, newTags unicode_lower tagToRemove s)]
                               (username follow) (follows st);
                    st' = st\<lparr>follows := fst result\<rparr>
                in if 0 < snd result
                   then removeTag_loop unicode_lower tagToRemove rest (updatedCount + 1) st'
                   else removeTag_loop unicode_lower tagToRemove rest updatedCount st'))"

record remove_result =
  removed :: nat
  tag :: string

definition removeTag :: "(string \<Rightarrow> string) \<Rightarrow> string \<Rightarrow> store \<Rightarrow> remove_result \<times> store" where
  "removeTag unicode_lower tagToRemove st =
     (let followsWithTag = removeTag_select tagToRemove (follows st);
          result = removeTag_loop unicode_lower tagToRemove followsWithTag 0 st
      in (\<lparr>removed = fst result, tag = tagToRemove\<rparr>, snd result))"


section \<open>The HTTP handlers of /sync and /contact/\<close>

record env =
  TWITTER_API_KEY :: string

record x_user =
  u_id :: string
  u_username :: string

record user_context =
  authenticated :: bool
  user :: "x_user option"

datatype reply_body =
    Text string
  | ErrorJson js_error
  | ErrorMessage string
  | RateLimitJson int int
  | SyncJson sync_result
  | UpdateJson update_result

datatype reply = Reply nat reply_body

text \<open>
  \<open>getUserDO\<close> throws unless \<open>ctx.user?.id\<close> is truthy. The user's id selects the
  store; the model has the store of that user.
\<close>

definition getUserDO :: "user_context \<Rightarrow> js_error + x_user" where
  "getUserDO ctx =
     (case user ctx of
        None \<Rightarrow> Inl UserNotAuthenticated
      | Some u \<Rightarrow> if u_id u = [] then Inl UserNotAuthenticated else Inr u)"

text \<open>
  \<open>canSync\<close>: \<open>!lastSync || lastSync < twentyFourHoursAgo || ctx.user?.username === "janwilmake"\<close>,
  with \<open>now\<close> the milliseconds of \<open>new Date()\<close>.
\<close>

definition canSync :: "int option \<Rightarrow> int \<Rightarrow> string \<Rightarrow> bool" where
  "canSync lastSync now uname =
     (let twentyFourHoursAgo = now - 24 * 60 * 60 * 1000
      in (case lastSync of None \<Rightarrow> True | Some l \<Rightarrow> l < twentyFourHoursAgo)
         \<or> uname = ''janwilmake'')"

text \<open>\<open>Math.ceil((lastSync.getTime() + 24 * 60 * 60 * 1000 - now.getTime()) / (60 * 60 * 1000))\<close>.\<close>

definition hoursUntilNextSync :: "int \<Rightarrow> int \<Rightarrow> int" where
  "hoursUntilNextSync lastSync now =
     \<lceil>real_of_int (lastSync + 24 * 60 * 60 * 1000 - now) / real_of_int (60 * 60 * 1000)\<rceil>"

definition sync_reply :: "js_error + sync_result \<Rightarrow> reply" where
  "sync_reply outcome =
     (case outcome of
        Inl err \<Rightarrow> Reply 500 (ErrorJson err)
      | Inr result \<Rightarrow> Reply 200 (SyncJson result))"

text \<open>
  GET /sync. \<open>now\<close> is the handler's \<open>new Date()\<close>. When \<open>canSync\<close> is false,
  \<open>lastSync\<close> is not null; the branch for null stands for the TypeError that
  \<open>lastSync.getTime()\<close> would throw.
\<close>

definition handle_sync ::
  "env \<Rightarrow> user_context \<Rightarrow> int \<Rightarrow> (nat \<Rightarrow> int) \<Rightarrow> upstream \<Rightarrow> store \<Rightarrow> (reply \<times> store) option" where
  "handle_sync e ctx now clock up st =
     (if TWITTER_API_KEY e = [] then Some (Reply 500 (Text ''TWITTER_API_KEY not configured''), st)
      else if \<not> authenticated ctx then Some (Reply 401 (Text ''Authentication required''), st)
      else (case getUserDO ctx of
              Inl err \<Rightarrow> Some (Reply 500 (ErrorJson err), st)
            | Inr u \<Rightarrow>
                (let lastSync = getLastSyncTime st
                 in if \<not> canSync lastSync now (u_username u)
                    then (case lastSync of
                            None \<Rightarrow> Some (Reply 500 (ErrorJson TypeError), st)
                          | Some l \<Rightarrow>
                              Some (Reply 429 (RateLimitJson (hoursUntilNextSync l now) l), st))
                    else map_option (\<lambda>run. (sync_reply (fst run), snd run))
                           (syncFollows clock up (u_username u) st))))"

text \<open>
  POST /contact/\<open>username\<close>: \<open>note_param\<close> and \<open>tags_param\<close> are the results of
  \<open>url.searchParams.get\<close>, which is null for a parameter that the URL does not have.
\<close>

definition handle_contact ::
  "env \<Rightarrow> user_context \<Rightarrow> string \<Rightarrow> string option \<Rightarrow> string option \<Rightarrow> store \<Rightarrow> reply \<times> store" where
  "handle_contact e ctx uname note_param tags_param st =
     (if TWITTER_API_KEY e = [] then (Reply 500 (Text ''TWITTER_API_KEY not configured''), st)
      else if \<not> authenticated ctx then (Reply 401 (Text ''Authentication required''), st)
      else if uname = [] then (Reply 400 (ErrorMessage ''Username required''), st)
      else (case getUserDO ctx of
              Inl err \<Rightarrow> (Reply 500 (ErrorJson err), st)
            | Inr u \<Rightarrow>
                (let result = updateContact uname (Given note_param) (Given tags_param) st
                 in (Reply 200 (UpdateJson (fst result)), snd result))))"


section \<open>Notions used to state the properties\<close>

text \<open>
  The table after the loop has inserted the given pages, the first of them as page
  \<open>pageCount + 1\<close>.
\<close>

fun insert_pages ::
  "(string \<rightharpoonup> string option \<times> string option) \<Rightarrow> (nat \<Rightarrow> int) \<Rightarrow> nat \<Rightarrow> followings_page list \<Rightarrow>
     follow_row list \<Rightarrow> follow_row list" where
  "insert_pages em clock pc [] tbl = tbl"
| "insert_pages em clock pc (data # ps) tbl =
     insert_pages em clock (pc + 1) ps
       (fold (insert_follow em (clock (pc + 1))) (page_follows data) tbl)"



text \<open>
  Rows that share a handle carry the same note and the same tags. Every statement that
  writes note or tags is keyed on the handle, so this holds in every state of the store.
\<close>

definition handles_agree :: "follow_row list \<Rightarrow> bool" where
  "handles_agree tbl =
     (\<forall>r\<in>set tbl. \<forall>q\<in>set tbl. username r = username q \<longrightarrow> note r = note q \<and> tags r = tags q)"

text \<open>
  The states of a store: it starts with empty tables, and \<open>syncFollows\<close>,
  \<open>updateContact\<close>, \<open>updateBulk\<close> and \<open>removeTag\<close> are the methods of
  \<open>CrmDurableObject\<close> that write to it. A sync that throws has written as well, and
  \<open>removeTag\<close> may run with any \<open>unicode_lower\<close>.
\<close>

inductive reachable :: "store \<Rightarrow> bool" where
  initial: "reachable \<lparr>follows = [], sync_log = []\<rparr>"
| sync: "reachable st \<Longrightarrow> syncFollows clock up uname st = Some (out, st') \<Longrightarrow> reachable st'"
| contact: "reachable st \<Longrightarrow> reachable (snd (updateContact uname note_arg tags_arg st))"
| bulk: "reachable st \<Longrightarrow> reachable (snd (updateBulk updates st))"
| remove: "reachable st \<Longrightarrow> reachable (snd (removeTag unicode_lower tagToRemove st))"


section \<open>Concrete data\<close>

text \<open>A database clock that advances by one millisecond per page.\<close>

definition tick :: "nat \<Rightarrow> int" where
  "tick k = int k"

text \<open>An upstream account and a table row with the given id and handle and no other data.\<close>

definition account :: "string \<Rightarrow> string \<Rightarrow> following" where
  "account i u =
     \<lparr>f_id = i, f_userName = u, f_name = None, f_profile_image_url_https = None,
      f_description = None, f_followers_count = None, f_following_count = None,
      f_verifiedType = None, f_verified = False, f_location = None, f_createdAt = None\<rparr>"

definition plain_row :: "string \<Rightarrow> string \<Rightarrow> string option \<Rightarrow> string option \<Rightarrow> follow_row" where
  "plain_row i u n t =
     \<lparr>user_id = i, username = u, name = None, profile_image_url = None,
      description = None, followers_count = None, following_count = None,
      verified_type = None, is_blue_verified = None, location = None, created_at = None,
      note = n, tags = t, synced_at = None\<rparr>"

text \<open>The row that a sync at database time \<open>ts\<close> writes for \<open>account i u\<close>.\<close>

definition synced_row ::
  "string \<Rightarrow> string \<Rightarrow> string option \<Rightarrow> string option \<Rightarrow> int \<Rightarrow> follow_row" where
  "synced_row i u n t ts = (plain_row i u n t)\<lparr>is_blue_verified := Some 0, synced_at := Some ts\<rparr>"

text \<open>Upstream answers that do not depend on the URL: a page with status 200, a bare status.\<close>

definition page_reply :: "following list \<Rightarrow> bool \<Rightarrow> string option \<Rightarrow> string \<Rightarrow> fetch_outcome" where
  "page_reply fs hn c url =
     Received \<lparr>status = 200,
               body = Some \<lparr>followings = Some fs, has_next_page = hn, next_cursor = c\<rparr>\<rparr>"

definition status_reply :: "nat \<Rightarrow> string \<Rightarrow> fetch_outcome" where
  "status_reply code url = Received \<lparr>status = code, body = None\<rparr>"

definition signed_in :: user_context where
  "signed_in = \<lparr>authenticated = True, user = Some \<lparr>u_id = ''7'', u_username = ''bob''\<rparr>\<rparr>"




section \<open>Lemmas\<close>

subsection \<open>INSERT OR REPLACE\<close>

lemma set_insert_or_replace:
  "set (insert_or_replace r tbl) = {x \<in> set tbl. user_id x \<noteq> user_id r} \<union> {r}"
  by (auto simp: insert_or_replace_def)

lemma ids_insert_or_replace:
  "user_id ` set (insert_or_replace r tbl) = insert (user_id r) (user_id ` set tbl)"
  by (auto simp: insert_or_replace_def)

lemma distinct_insert_or_replace:
  "distinct (map user_id tbl) \<Longrightarrow> distinct (map user_id (insert_or_replace r tbl))"
  by (auto simp: insert_or_replace_def distinct_map_filter)

lemma user_id_follow_to_row [simp]: "user_id (follow_to_row em t f) = f_id f"
  by (simp add: follow_to_row_def Let_def)

lemma username_follow_to_row [simp]: "username (follow_to_row em t f) = f_userName f"
  by (simp add: follow_to_row_def Let_def)

lemma set_fold_insert_follow:
  "set (fold (insert_follow em t) fs tbl) \<subseteq> set tbl \<union> follow_to_row em t ` set fs"
proof (induction fs arbitrary: tbl)
  case Nil
  then show ?case by simp
next
  case (Cons f fs)
  have "set (fold (insert_follow em t) (f # fs) tbl)
          \<subseteq> set (insert_or_replace (follow_to_row em t f) tbl) \<union> follow_to_row em t ` set fs"
    using Cons.IH [of "insert_follow em t f tbl"]
    by (simp add: insert_follow_def [symmetric])
  also have "\<dots> \<subseteq> set tbl \<union> follow_to_row em t ` set (f # fs)"
    by (auto simp: set_insert_or_replace)
  finally show ?case .
qed

lemma ids_fold_insert_follow:
  "user_id ` set (fold (insert_follow em t) fs tbl) = user_id ` set tbl \<union> f_id ` set fs"
  by (induction fs arbitrary: tbl) (auto simp: insert_follow_def ids_insert_or_replace)

lemma distinct_fold_insert_follow:
  "distinct (map user_id tbl) \<Longrightarrow> distinct (map user_id (fold (insert_follow em t) fs tbl))"
  by (induction fs arbitrary: tbl) (auto simp: insert_follow_def distinct_insert_or_replace)

subsection \<open>The loop\<close>

lemma received_Cons:
  "received u (respond # rest) c =
     respond (followings_url u c) #
       (case fetch_page (respond (followings_url u c)) of
          Inl e \<Rightarrow> []
        | Inr data \<Rightarrow> if loop_continues data then received u rest (next_cursor data) else [])"
  by (simp add: Let_def)

declare received.simps(2) [simp del]

lemma pages_of_Nil [simp]: "pages_of [] = []"
  by (simp add: pages_of_def)

lemma pages_of_Cons:
  "pages_of (x # outs) = (case fetch_page x of Inl e \<Rightarrow> [] | Inr data \<Rightarrow> [data]) @ pages_of outs"
  by (simp add: pages_of_def)

lemma pages_of_append: "pages_of (xs @ ys) = pages_of xs @ pages_of ys"
  by (simp add: pages_of_def)

lemma sync_loop_Cons:
  "sync_loop em clock u (respond # rest) c tot pc st =
     (case fetch_page (respond (followings_url u c)) of
        Inl e \<Rightarrow> Some (Inl e, st)
      | Inr data \<Rightarrow>
          if loop_continues data
          then sync_loop em clock u rest (next_cursor data) (tot + length (page_follows data)) (pc + 1)
                 (st\<lparr>follows := fold (insert_follow em (clock (pc + 1))) (page_follows data) (follows st)\<rparr>)
          else Some (Inr \<lparr>synced = tot + length (page_follows data), pages = pc + 1\<rparr>,
                 st\<lparr>follows := fold (insert_follow em (clock (pc + 1))) (page_follows data) (follows st)\<rparr>))"
  by (simp add: Let_def split: sum.splits)

declare sync_loop.simps(2) [simp del]

lemma sync_loop_store:
  "sync_loop em clock u up c tot pc st = Some (out, st') \<Longrightarrow>
     st' = st\<lparr>follows := insert_pages em clock pc (pages_of (received u up c)) (follows st)\<rparr>"
proof (induction up arbitrary: c tot pc st)
  case Nil
  then show ?case by simp
next
  case (Cons respond rest)
  show ?case
  proof (cases "fetch_page (respond (followings_url u c))")
    case (Inl e)
    with Cons.prems show ?thesis
      by (simp add: sync_loop_Cons received_Cons pages_of_Cons)
  next
    case (Inr data)
    show ?thesis
    proof (cases "loop_continues data")
      case True
      with Cons.prems Inr have run: "sync_loop em clock u rest (next_cursor data)
          (tot + length (page_follows data)) (pc + 1)
          (st\<lparr>follows := fold (insert_follow em (clock (pc + 1))) (page_follows data) (follows st)\<rparr>)
           = Some (out, st')"
        by (simp add: sync_loop_Cons)
      show ?thesis
        using Cons.IH [OF run] Inr True
        by (simp add: received_Cons pages_of_Cons)
    next
      case False
      with Cons.prems Inr show ?thesis
        by (auto simp: sync_loop_Cons received_Cons pages_of_Cons)
    qed
  qed
qed

text \<open>The outcome of the loop, read off the outcomes it received.\<close>

lemma sync_loop_outcome:
  "sync_loop em clock u up c tot pc st = Some (out, st') \<Longrightarrow>
     received u up c \<noteq> [] \<and>
     (case fetch_page (last (received u up c)) of
        Inl e \<Rightarrow> out = Inl e
      | Inr data \<Rightarrow> \<not> loop_continues data \<and>
          out = Inr \<lparr>synced = tot + length (concat (map page_follows (pages_of (received u up c)))),
                     pages = pc + length (received u up c)\<rparr>)"
proof (induction up arbitrary: c tot pc st)
  case Nil
  then show ?case by simp
next
  case (Cons respond rest)
  show ?case
  proof (cases "fetch_page (respond (followings_url u c))")
    case (Inl e)
    with Cons.prems show ?thesis
      by (auto simp: sync_loop_Cons received_Cons pages_of_Cons)
  next
    case (Inr data)
    show ?thesis
    proof (cases "loop_continues data")
      case True
      with Cons.prems Inr have run: "sync_loop em clock u rest (next_cursor data)
          (tot + length (page_follows data)) (pc + 1)
          (st\<lparr>follows := fold (insert_follow em (clock (pc + 1))) (page_follows data) (follows st)\<rparr>)
           = Some (out, st')"
        by (simp add: sync_loop_Cons)
      show ?thesis
        using Cons.IH [OF run] Inr True
        by (auto simp: received_Cons pages_of_Cons split: sum.splits)
    next
      case False
      with Cons.prems Inr show ?thesis
        by (auto simp: sync_loop_Cons received_Cons pages_of_Cons)
    qed
  qed
qed

text \<open>All outcomes before the last one received are pages after which the loop continues.\<close>

lemma received_butlast:
  "x \<in> set (butlast (received u up c)) \<Longrightarrow> \<exists>data. fetch_page x = Inr data \<and> loop_continues data"
proof (induction up arbitrary: c)
  case Nil
  then show ?case by simp
next
  case (Cons respond rest)
  show ?case
  proof (cases "fetch_page (respond (followings_url u c))")
    case (Inl e)
    with Cons.prems show ?thesis by (simp add: received_Cons)
  next
    case (Inr data)
    with Cons.prems Cons.IH show ?thesis
      by (auto simp: received_Cons split: if_splits)
  qed
qed

text \<open>The loop returns exactly when the last outcome received ends it.\<close>

lemma sync_loop_returns:
  "received u up c \<noteq> [] \<Longrightarrow>
   (\<forall>data. fetch_page (last (received u up c)) = Inr data \<longrightarrow> \<not> loop_continues data) \<Longrightarrow>
   \<exists>y. sync_loop em clock u up c tot pc st = Some y"
proof (induction up arbitrary: c tot pc st)
  case Nil
  then show ?case by simp
next
  case (Cons respond rest)
  show ?case
  proof (cases "fetch_page (respond (followings_url u c))")
    case (Inl e)
    then show ?thesis by (simp add: sync_loop_Cons)
  next
    case (Inr data)
    show ?thesis
    proof (cases "loop_continues data")
      case True
      have rec: "received u (respond # rest) c =
          respond (followings_url u c) # received u rest (next_cursor data)"
        using Inr True by (simp add: received_Cons)
      have ne: "received u rest (next_cursor data) \<noteq> []"
        using Cons.prems(2) Inr True by (auto simp: rec)
      have lst: "\<forall>d. fetch_page (last (received u rest (next_cursor data))) = Inr d \<longrightarrow> \<not> loop_continues d"
        using Cons.prems(2) ne by (simp add: rec)
      show ?thesis
        using Cons.IH [OF ne lst] Inr True by (simp add: sync_loop_Cons)
    next
      case False
      with Inr show ?thesis by (simp add: sync_loop_Cons)
    qed
  qed
qed

lemma sync_loop_None:
  "sync_loop em clock u up c tot pc st = None \<longleftrightarrow>
     (received u up c = [] \<or>
      (\<exists>data. fetch_page (last (received u up c)) = Inr data \<and> loop_continues data))"
proof
  assume none: "sync_loop em clock u up c tot pc st = None"
  show "received u up c = [] \<or>
      (\<exists>data. fetch_page (last (received u up c)) = Inr data \<and> loop_continues data)"
  proof (rule ccontr)
    assume "\<not> ?thesis"
    then have "received u up c \<noteq> []"
      and "\<forall>data. fetch_page (last (received u up c)) = Inr data \<longrightarrow> \<not> loop_continues data"
      by auto
    from sync_loop_returns [OF this]
    obtain y where "sync_loop em clock u up c tot pc st = Some y" by blast
    with none show False by simp
  qed
next
  assume r: "received u up c = [] \<or>
      (\<exists>data. fetch_page (last (received u up c)) = Inr data \<and> loop_continues data)"
  show "sync_loop em clock u up c tot pc st = None"
  proof (cases "sync_loop em clock u up c tot pc st")
    case None
    then show ?thesis .
  next
    case (Some y)
    obtain out st' where "y = (out, st')" by (cases y)
    with Some sync_loop_outcome [of em clock u up c tot pc st out st'] r
    show ?thesis by (auto split: sum.splits)
  qed
qed

subsection \<open>Tables built by the loop\<close>

lemma set_insert_pages:
  "r \<in> set (insert_pages em clock pc ps tbl) \<Longrightarrow>
     r \<in> set tbl \<or> (\<exists>t. \<exists>f\<in>set (concat (map page_follows ps)). r = follow_to_row em t f)"
proof (induction ps arbitrary: pc tbl)
  case Nil
  then show ?case by simp
next
  case (Cons data ps)
  let ?tbl = "fold (insert_follow em (clock (pc + 1))) (page_follows data) tbl"
  from Cons.prems have "r \<in> set (insert_pages em clock (pc + 1) ps ?tbl)" by simp
  from Cons.IH [OF this] consider "r \<in> set ?tbl"
    | "\<exists>t. \<exists>f\<in>set (concat (map page_follows ps)). r = follow_to_row em t f" by blast
  then show ?case
  proof cases
    case 1
    with set_fold_insert_follow [of em "clock (pc + 1)" "page_follows data" tbl]
    have "r \<in> set tbl \<or> r \<in> follow_to_row em (clock (pc + 1)) ` set (page_follows data)" by blast
    then show ?thesis by auto
  next
    case 2
    then show ?thesis by auto
  qed
qed

lemma ids_insert_pages:
  "user_id ` set (insert_pages em clock pc ps tbl) =
     user_id ` set tbl \<union> f_id ` set (concat (map page_follows ps))"
  by (induction ps arbitrary: pc tbl) (auto simp: ids_fold_insert_follow)

lemma distinct_insert_pages:
  "distinct (map user_id tbl) \<Longrightarrow> distinct (map user_id (insert_pages em clock pc ps tbl))"
  by (induction ps arbitrary: pc tbl) (auto simp: distinct_fold_insert_follow)

lemma syncFollows_loop:
  "syncFollows clock up u st =
     sync_loop (existingMap (follows st)) clock u up None 0 0
       \<lparr>follows = [], sync_log = sync_log st @ [clock 0]\<rparr>"
  by (cases st) (simp add: syncFollows_def updateSyncTime_def Let_def)

lemma syncFollows_store:
  assumes "syncFollows clock up u st = Some (out, st')"
  shows "st' = \<lparr>follows = insert_pages (existingMap (follows st)) clock 0
                            (pages_of (received u up None)) [],
               sync_log = sync_log st @ [clock 0]\<rparr>"
  using sync_loop_store [OF assms [unfolded syncFollows_loop]] by simp

lemma fetched_follows_pages:
  "fetched_follows u up = concat (map page_follows (pages_of (received u up None)))"
  by (simp add: fetched_follows_def)

subsection \<open>existingMap\<close>

lemma fold_existing_lookup:
  "fold (\<lambda>row m. m(username row \<mapsto> (note row, tags row))) rows m0 u =
     (case filter (\<lambda>p. username p = u) rows of
        [] \<Rightarrow> m0 u
      | p # ps \<Rightarrow> Some (note (last (p # ps)), tags (last (p # ps))))"
  by (induction rows arbitrary: m0) (auto split: list.splits)

lemma existingMap_lookup:
  "existingMap rows u =
     (case filter (\<lambda>p. (note p \<noteq> None \<or> tags p \<noteq> None) \<and> username p = u) rows of
        [] \<Rightarrow> None
      | p # ps \<Rightarrow> Some (note (last (p # ps)), tags (last (p # ps))))"
  by (simp add: existingMap_def fold_existing_lookup)

lemma note_follow_to_row:
  "note (follow_to_row em t f) = or_null (case em (f_userName f) of None \<Rightarrow> None | Some e \<Rightarrow> fst e)"
  by (simp add: follow_to_row_def Let_def)

lemma tags_follow_to_row:
  "tags (follow_to_row em t f) = or_null (case em (f_userName f) of None \<Rightarrow> None | Some e \<Rightarrow> snd e)"
  by (simp add: follow_to_row_def Let_def)

lemma or_null_cases: "or_null v = (if v = Some [] then None else v)"
  by (cases v) (auto simp: or_null_def truthy_def)

subsection \<open>The sync log\<close>

lemma last_sorted_Max: "sorted xs \<Longrightarrow> xs \<noteq> [] \<Longrightarrow> last xs = Max (set xs)"
proof (induction xs)
  case Nil
  then show ?case by simp
next
  case (Cons x xs)
  show ?case
  proof (cases "xs = []")
    case True
    then show ?thesis by simp
  next
    case False
    with Cons have "last xs = Max (set xs)" by simp
    moreover have "x \<le> Max (set xs)"
      using Cons.prems(1) False by (meson List.finite_set Max_ge_iff set_empty sorted_simps(2) last_in_set)
    ultimately show ?thesis using False by (simp add: max_def)
  qed
qed

lemma getLastSyncTime_Max:
  "getLastSyncTime st = (if sync_log st = [] then None else Some (Max (set (sync_log st :: int list))))"
proof (cases "sync_log st = []")
  case True
  then show ?thesis by (simp add: getLastSyncTime_def)
next
  case False
  then have "sort (sync_log st) \<noteq> []"
    by (metis length_0_conv length_sort)
  then have "last (sort (sync_log st)) = Max (set (sort (sync_log st)))"
    by (intro last_sorted_Max) simp_all
  then have mx: "last (sort (sync_log st)) = Max (set (sync_log st))"
    by simp
  from \<open>sort (sync_log st) \<noteq> []\<close> obtain ys y where s: "sort (sync_log st) = ys @ [y]"
    by (metis rev_exhaust)
  from mx have "y = Max (set (sync_log st))"
    by (simp add: s)
  then show ?thesis using False by (simp add: getLastSyncTime_def s)
qed

subsection \<open>LIKE\<close>

lemma like_Cons_Cons:
  "like (p # ps) (c # cs) =
     (if p = CHR ''%'' then like ps (c # cs) \<or> like (p # ps) (skip_utf8 c cs)
      else if p = CHR ''_'' then like ps (skip_utf8 c cs)
      else ascii_tolower p = ascii_tolower c \<and> like ps cs)"
  by simp

declare like.simps(3) [simp del]


lemma length_skip_utf8: "length (skip_utf8 c cs) \<le> length cs"
  by (simp add: skip_utf8_def length_dropWhile_le)

lemma like_percent_only [simp]: "like ''%'' s"
proof (induction s rule: length_induct)
  case (1 s)
  show ?case
  proof (cases s)
    case Nil
    then show ?thesis by simp
  next
    case (Cons c cs)
    have "length (skip_utf8 c cs) < length s"
      using length_skip_utf8 [of c cs] Cons by simp
    with 1 have "like ''%'' (skip_utf8 c cs)" by blast
    then show ?thesis by (simp add: Cons like_Cons_Cons)
  qed
qed









declare like.simps(3) [simp]

subsection \<open>split, join and trim\<close>

declare strip_leading.simps [simp del]










subsection \<open>UPDATE\<close>

lemma fst_sql_update:
  "fst (sql_update assignments uname tbl) =
     map (\<lambda>r. if username r = uname then fold set_column assignments r else r) tbl"
  by (simp add: sql_update_def)

lemma snd_sql_update_pos:
  "0 < snd (sql_update assignments uname tbl) \<longleftrightarrow> uname \<in> username ` set tbl"
  by (auto simp: sql_update_def filter_empty_conv)

lemma username_set_column [simp]: "username (set_column (c, v) r) = username r"
  by (cases c) simp_all

lemma username_fold_set_column [simp]: "username (fold set_column asg r) = username r"
  by (induction asg arbitrary: r) auto

lemma blank_set_column [simp]:
  "(set_column (c, v) r)\<lparr>note := None, tags := None\<rparr> = r\<lparr>note := None, tags := None\<rparr>"
  by (cases c) simp_all

lemma blank_fold_set_column [simp]:
  "(fold set_column asg r)\<lparr>note := None, tags := None\<rparr> = r\<lparr>note := None, tags := None\<rparr>"
  by (induction asg arbitrary: r) auto

lemma frame_sql_update:
  "map (\<lambda>r. r\<lparr>note := None, tags := None\<rparr>) (fst (sql_update asg uname tbl)) =
   map (\<lambda>r. r\<lparr>note := None, tags := None\<rparr>) tbl"
  by (simp add: fst_sql_update o_def)



subsection \<open>removeTag\<close>




lemma updateBulk_loop_frame:
  "map (\<lambda>r. r\<lparr>note := None, tags := None\<rparr>) (follows (snd (updateBulk_loop ups sc ec errs st))) =
     map (\<lambda>r. r\<lparr>note := None, tags := None\<rparr>) (follows st) \<and>
   sync_log (snd (updateBulk_loop ups sc ec errs st)) = sync_log st"
  by (induction ups arbitrary: sc ec errs st) (simp_all add: Let_def frame_sql_update)

lemma removeTag_loop_frame:
  "map (\<lambda>r. r\<lparr>note := None, tags := None\<rparr>) (follows (snd (removeTag_loop ul t sel n st))) =
     map (\<lambda>r. r\<lparr>note := None, tags := None\<rparr>) (follows st) \<and>
   sync_log (snd (removeTag_loop ul t sel n st)) = sync_log st"
  by (induction sel arbitrary: n st) (simp_all add: Let_def frame_sql_update split: option.splits)


subsection \<open>Rows that share a handle\<close>

lemma fold_set_column_agree:
  "note r = note q \<Longrightarrow> tags r = tags q \<Longrightarrow>
     note (fold set_column asg r) = note (fold set_column asg q) \<and>
     tags (fold set_column asg r) = tags (fold set_column asg q)"
proof (induction asg arbitrary: r q)
  case Nil
  then show ?case by simp
next
  case (Cons a asg)
  obtain c v where a: "a = (c, v)" by (cases a)
  have "note (set_column a r) = note (set_column a q) \<and> tags (set_column a r) = tags (set_column a q)"
    using Cons.prems by (cases c) (simp_all add: a)
  then show ?case using Cons.IH [of "set_column a r" "set_column a q"] by simp
qed

lemma handles_agree_map:
  assumes agree: "handles_agree tbl"
    and name: "\<And>r. username (g r) = username r"
    and uniform: "\<And>r q. username r = username q \<Longrightarrow> note r = note q \<Longrightarrow> tags r = tags q \<Longrightarrow>
                    note (g r) = note (g q) \<and> tags (g r) = tags (g q)"
  shows "handles_agree (map g tbl)"
  unfolding handles_agree_def
proof (intro ballI impI)
  fix r' q'
  assume "r' \<in> set (map g tbl)" and "q' \<in> set (map g tbl)" and same: "username r' = username q'"
  then obtain r q where r: "r \<in> set tbl" "r' = g r" and q: "q \<in> set tbl" "q' = g q"
    by auto
  from same have eq: "username r = username q"
    by (simp add: r(2) q(2) name)
  with agree r(1) q(1) have "note r = note q" "tags r = tags q"
    unfolding handles_agree_def by blast+
  from uniform [OF eq this] show "note r' = note q' \<and> tags r' = tags q'"
    by (simp add: r(2) q(2))
qed

lemma handles_agree_sql_update:
  assumes "handles_agree tbl"
  shows "handles_agree (fst (sql_update asg uname tbl))"
  unfolding fst_sql_update
proof (rule handles_agree_map [OF assms])
  fix r :: follow_row
  show "username (if username r = uname then fold set_column asg r else r) = username r"
    by simp
next
  fix r q :: follow_row
  assume eq: "username r = username q" and n: "note r = note q" and t: "tags r = tags q"
  show "note (if username r = uname then fold set_column asg r else r) =
          note (if username q = uname then fold set_column asg q else q) \<and>
        tags (if username r = uname then fold set_column asg r else r) =
          tags (if username q = uname then fold set_column asg q else q)"
  proof (cases "username q = uname")
    case True
    then show ?thesis
      using eq fold_set_column_agree [OF n t, of asg] by simp
  next
    case False
    then show ?thesis
      using eq n t by simp
  qed
qed

lemma handles_agree_updateBulk_loop:
  "handles_agree (follows st) \<Longrightarrow> handles_agree (follows (snd (updateBulk_loop ups sc ec errs st)))"
  by (induction ups arbitrary: sc ec errs st) (simp_all add: Let_def handles_agree_sql_update)

lemma handles_agree_removeTag_loop:
  "handles_agree (follows st) \<Longrightarrow> handles_agree (follows (snd (removeTag_loop ul t sel n st)))"
  by (induction sel arbitrary: n st)
     (simp_all add: Let_def handles_agree_sql_update split: option.splits)

lemma handles_agree_sync:
  assumes "syncFollows clock up u st = Some (out, st')"
  shows "handles_agree (follows st')"
  unfolding handles_agree_def
proof (intro ballI impI)
  fix r q
  assume r: "r \<in> set (follows st')" and q: "q \<in> set (follows st')" and same: "username r = username q"
  let ?em = "existingMap (follows st)"
  have tbl: "follows st' = insert_pages ?em clock 0 (pages_of (received u up None)) []"
    using syncFollows_store [OF assms] by simp
  from r set_insert_pages [of r ?em clock 0 "pages_of (received u up None)" "[]"]
  obtain t f where rf: "r = follow_to_row ?em t f" by (auto simp: tbl)
  from q set_insert_pages [of q ?em clock 0 "pages_of (received u up None)" "[]"]
  obtain t' g where qg: "q = follow_to_row ?em t' g" by (auto simp: tbl)
  from same have "f_userName f = f_userName g" by (simp add: rf qg)
  then show "note r = note q \<and> tags r = tags q"
    by (simp add: rf qg note_follow_to_row tags_follow_to_row)
qed

lemma reachable_handles_agree: "reachable st \<Longrightarrow> handles_agree (follows st)"
proof (induction rule: reachable.induct)
  case initial
  then show ?case by (simp add: handles_agree_def)
next
  case (sync st clock up uname out st')
  then show ?case by (auto intro: handles_agree_sync)
next
  case (contact st uname note_arg tags_arg)
  then show ?case by (simp add: updateContact_def Let_def handles_agree_sql_update)
next
  case (bulk st updates)
  then show ?case by (simp add: updateBulk_def handles_agree_updateBulk_loop)
next
  case (remove st unicode_lower tagToRemove)
  then show ?case by (simp add: removeTag_def Let_def handles_agree_removeTag_loop)
qed


lemma sync_note_tags_from_last:
  assumes run: "syncFollows clock up u st = Some (out, st')"
    and r: "r \<in> set (follows st')"
  shows "(case filter (\<lambda>p. (note p \<noteq> None \<or> tags p \<noteq> None) \<and> username p = username r) (follows st) of
            [] \<Rightarrow> note r = None \<and> tags r = None
          | p # ps \<Rightarrow>
              note r = (if note (last (p # ps)) = Some [] then None else note (last (p # ps))) \<and>
              tags r = (if tags (last (p # ps)) = Some [] then None else tags (last (p # ps))))"
proof -
  let ?em = "existingMap (follows st)"
  have tbl: "follows st' = insert_pages ?em clock 0 (pages_of (received u up None)) []"
    using syncFollows_store [OF run] by simp
  from r set_insert_pages [of r ?em clock 0 "pages_of (received u up None)" "[]"]
  obtain t f where row: "r = follow_to_row ?em t f"
    by (auto simp: tbl)
  show ?thesis
    unfolding row note_follow_to_row tags_follow_to_row username_follow_to_row
      existingMap_lookup or_null_cases
    by (simp split: list.splits)
qed


section \<open>Evaluation of concrete runs\<close>

lemmas run_defs =
  syncFollows_def sync_loop_Cons received_Cons pages_of_Cons fetched_follows_def fetch_page_def
  response_ok_def page_follows_def loop_continues_def truthy_def or_null_def existingMap_def
  updateSyncTime_def insert_follow_def insert_or_replace_def follow_to_row_def followings_url_def
  tick_def account_def plain_row_def synced_row_def page_reply_def status_reply_def Let_def

lemmas store_defs =
  removeTag_def removeTag_select_def tags_like_def newTags_def sql_update_def updateContact_def
  updateBulk_def trim_def whitespace_def strip_leading.simps toLowerCase_def ascii_tolower_def
  skip_utf8_def is_continuation_def plain_row_def
  synced_row_def Let_def


section \<open>The sync procedure\<close>

text \<open>
  C1 (as amended). For every sync run, whether it returns or throws after some pages:
  every row of the table after the run whose handle had a row before the run carries
  the note and the tags of that handle before the run, except that an empty string among
  these two values is replaced by null; every row whose handle had no row before the
  run has note = null and tags = null. The run writes no other note or tags value.
\<close>

theorem sync_carries_note_and_tags:
  assumes reach: "reachable st"
    and run: "syncFollows clock up u st = Some (out, st')"
    and r: "r \<in> set (follows st')"
  shows "(\<forall>p\<in>set (follows st). username p = username r \<longrightarrow>
            note r = (if note p = Some [] then None else note p) \<and>
            tags r = (if tags p = Some [] then None else tags p)) \<and>
         ((\<forall>p\<in>set (follows st). username p \<noteq> username r) \<longrightarrow> note r = None \<and> tags r = None)"
proof -
  let ?prior = "filter (\<lambda>p. (note p \<noteq> None \<or> tags p \<noteq> None) \<and> username p = username r) (follows st)"
  note last_row = sync_note_tags_from_last [OF run r]
  have agree: "handles_agree (follows st)"
    using reach by (rule reachable_handles_agree)
  have same: "note r = (if note p = Some [] then None else note p) \<and>
              tags r = (if tags p = Some [] then None else tags p)"
    if p: "p \<in> set (follows st)" "username p = username r" for p
  proof (cases ?prior)
    case Nil
    with p have "\<not> (note p \<noteq> None \<or> tags p \<noteq> None)"
      by (auto simp: filter_empty_conv)
    with last_row Nil show ?thesis by simp
  next
    case (Cons q qs)
    have "last (q # qs) \<in> set ?prior"
      unfolding Cons by (rule last_in_set) simp
    then have l: "last (q # qs) \<in> set (follows st)" "username (last (q # qs)) = username r"
      by simp_all
    with agree p have "note (last (q # qs)) = note p" "tags (last (q # qs)) = tags p"
      unfolding handles_agree_def by (metis (no_types, lifting))+
    with last_row Cons show ?thesis by simp
  qed
  have fresh: "note r = None \<and> tags r = None"
    if "\<forall>p\<in>set (follows st). username p \<noteq> username r"
  proof -
    from that have "?prior = []" by (auto simp: filter_empty_conv)
    with last_row show ?thesis by simp
  qed
  from same fresh show ?thesis by blast
qed

text \<open>
  After a first sync and an update of alice, a second sync over one page with the
  accounts alice, bob and carol: alice keeps her note and tags, carol is new and has
  null in both.
\<close>

theorem sync_carries_note_and_tags_witness:
  "reachable \<lparr>follows = [synced_row ''1'' ''alice'' (Some ''met in Oslo'') (Some ''vip'') 1,
                          synced_row ''2'' ''bob'' None None 1],
               sync_log = [0]\<rparr> \<and>
   syncFollows tick
     [page_reply [account ''1'' ''alice'', account ''2'' ''bob'', account ''3'' ''carol''] False None]
     ''me''
     \<lparr>follows = [synced_row ''1'' ''alice'' (Some ''met in Oslo'') (Some ''vip'') 1,
                 synced_row ''2'' ''bob'' None None 1],
      sync_log = [0]\<rparr> =
   Some (Inr \<lparr>synced = 3, pages = 1\<rparr>,
         \<lparr>follows = [synced_row ''1'' ''alice'' (Some ''met in Oslo'') (Some ''vip'') 1,
                     synced_row ''2'' ''bob'' None None 1,
                     synced_row ''3'' ''carol'' None None 1],
          sync_log = [0, 0]\<rparr>) \<and>
   note (synced_row ''1'' ''alice'' (Some ''met in Oslo'') (Some ''vip'') 1) = Some ''met in Oslo'' \<and>
   tags (synced_row ''1'' ''alice'' (Some ''met in Oslo'') (Some ''vip'') 1) = Some ''vip'' \<and>
   note (synced_row ''3'' ''carol'' None None 1) = None \<and>
   tags (synced_row ''3'' ''carol'' None None 1) = None"
proof -
  let ?up = "[page_reply [account ''1'' ''alice'', account ''2'' ''bob'', account ''3'' ''carol''] False None]"
  let ?fresh = "\<lparr>follows = [synced_row ''1'' ''alice'' None None 1, synced_row ''2'' ''bob'' None None 1],
      sync_log = [0]\<rparr>"
  let ?st = "\<lparr>follows = [synced_row ''1'' ''alice'' (Some ''met in Oslo'') (Some ''vip'') 1,
                 synced_row ''2'' ''bob'' None None 1],
      sync_log = [0]\<rparr>"
  let ?st' = "\<lparr>follows = [synced_row ''1'' ''alice'' (Some ''met in Oslo'') (Some ''vip'') 1,
                     synced_row ''2'' ''bob'' None None 1,
                     synced_row ''3'' ''carol'' None None 1],
          sync_log = [0, 0]\<rparr>"
  have first: "syncFollows tick [page_reply [account ''1'' ''alice'', account ''2'' ''bob''] False None]
      ''me'' \<lparr>follows = [], sync_log = []\<rparr> = Some (Inr \<lparr>synced = 2, pages = 1\<rparr>, ?fresh)"
    by (simp add: run_defs)
  have "reachable ?fresh"
    by (rule reachable.sync [OF reachable.initial first])
  then have "reachable (snd (updateContact ''alice'' (Given (Some ''met in Oslo'')) (Given (Some ''vip'')) ?fresh))"
    by (rule reachable.contact)
  moreover have "snd (updateContact ''alice'' (Given (Some ''met in Oslo'')) (Given (Some ''vip'')) ?fresh) = ?st"
    by (simp add: store_defs)
  ultimately have reach: "reachable ?st" by simp
  have run: "syncFollows tick ?up ''me'' ?st = Some (Inr \<lparr>synced = 3, pages = 1\<rparr>, ?st')"
    by (simp add: run_defs)
  have alice: "synced_row ''1'' ''alice'' (Some ''met in Oslo'') (Some ''vip'') 1 \<in> set (follows ?st')"
    and carol: "synced_row ''3'' ''carol'' None None 1 \<in> set (follows ?st')"
    by simp_all
  from sync_carries_note_and_tags [OF reach run alice] sync_carries_note_and_tags [OF reach run carol]
  have "note (synced_row ''1'' ''alice'' (Some ''met in Oslo'') (Some ''vip'') 1) = Some ''met in Oslo''"
    and "tags (synced_row ''1'' ''alice'' (Some ''met in Oslo'') (Some ''vip'') 1) = Some ''vip''"
    and "note (synced_row ''3'' ''carol'' None None 1) = None"
    and "tags (synced_row ''3'' ''carol'' None None 1) = None"
    by (simp_all add: plain_row_def synced_row_def)
  with reach run show ?thesis by (intro conjI)
qed

text \<open>
  C1 as stated fails: after a first sync, updateContact sets the note of alice to
  \<open>""\<close> (the empty string, which is not null) and her tags to \<open>"x"\<close>. Alice is fetched
  again by a second sync; her replacement row has the tags \<open>"x"\<close> and the note null.
\<close>

theorem sync_drops_empty_note:
  "syncFollows tick [page_reply [account ''1'' ''alice''] False None] ''me''
     \<lparr>follows = [], sync_log = []\<rparr> =
   Some (Inr \<lparr>synced = 1, pages = 1\<rparr>,
         \<lparr>follows = [synced_row ''1'' ''alice'' None None 1], sync_log = [0]\<rparr>) \<and>
   updateContact ''alice'' (Given (Some '''')) (Given (Some ''x''))
     \<lparr>follows = [synced_row ''1'' ''alice'' None None 1], sync_log = [0]\<rparr> =
   (\<lparr>updated = True, error = None\<rparr>,
    \<lparr>follows = [synced_row ''1'' ''alice'' (Some '''') (Some ''x'') 1], sync_log = [0]\<rparr>) \<and>
   syncFollows tick [page_reply [account ''1'' ''alice''] False None] ''me''
     \<lparr>follows = [synced_row ''1'' ''alice'' (Some '''') (Some ''x'') 1], sync_log = [0]\<rparr> =
   Some (Inr \<lparr>synced = 1, pages = 1\<rparr>,
         \<lparr>follows = [synced_row ''1'' ''alice'' None (Some ''x'') 1], sync_log = [0, 0]\<rparr>) \<and>
   note (synced_row ''1'' ''alice'' (Some '''') (Some ''x'') 1) = Some '''' \<and>
   note (synced_row ''1'' ''alice'' None (Some ''x'') 1) = None"
  by (simp add: run_defs store_defs)

text \<open>
  C2 (as amended). For every sync run that completes without error: the set of user ids
  in the follows table after the sync equals exactly the set of ids contained in the
  pages returned by the upstream source during that sync, no id occurs twice, and every
  row carries a username that these pages give for its id. So the usernames present
  after the sync are among the fetched usernames, and they are exactly the fetched
  usernames whenever no id was returned under two different usernames; in particular
  every row whose username is absent from the fetched pages has been deleted.
\<close>

theorem sync_table_matches_fetch:
  assumes run: "syncFollows clock up u st = Some (Inr res, st')"
  shows "user_id ` set (follows st') = f_id ` set (fetched_follows u up) \<and>
         distinct (map user_id (follows st')) \<and>
         (\<forall>r\<in>set (follows st'). \<exists>f\<in>set (fetched_follows u up).
             user_id r = f_id f \<and> username r = f_userName f) \<and>
         username ` set (follows st') \<subseteq> f_userName ` set (fetched_follows u up) \<and>
         ((\<forall>f\<in>set (fetched_follows u up). \<forall>g\<in>set (fetched_follows u up).
              f_id f = f_id g \<longrightarrow> f_userName f = f_userName g) \<longrightarrow>
          username ` set (follows st') = f_userName ` set (fetched_follows u up))"
proof -
  let ?F = "fetched_follows u up"
  let ?em = "existingMap (follows st)"
  have tbl: "follows st' = insert_pages ?em clock 0 (pages_of (received u up None)) []"
    using syncFollows_store [OF run] by simp
  have ids: "user_id ` set (follows st') = f_id ` set ?F"
    by (simp add: tbl ids_insert_pages fetched_follows_pages)
  have dist: "distinct (map user_id (follows st'))"
    by (simp add: tbl distinct_insert_pages)
  have origin: "\<exists>f\<in>set ?F. user_id r = f_id f \<and> username r = f_userName f"
    if "r \<in> set (follows st')" for r
  proof -
    from that set_insert_pages [of r ?em clock 0 "pages_of (received u up None)" "[]"]
    obtain t f where "f \<in> set ?F" and "r = follow_to_row ?em t f"
      by (auto simp: tbl fetched_follows_pages)
    then show ?thesis by auto
  qed
  have sub: "username ` set (follows st') \<subseteq> f_userName ` set ?F"
    using origin by force
  have eq: "username ` set (follows st') = f_userName ` set ?F"
    if consistent: "\<forall>f\<in>set ?F. \<forall>g\<in>set ?F. f_id f = f_id g \<longrightarrow> f_userName f = f_userName g"
  proof
    show "username ` set (follows st') \<subseteq> f_userName ` set ?F" by (rule sub)
    show "f_userName ` set ?F \<subseteq> username ` set (follows st')"
    proof
      fix h assume "h \<in> f_userName ` set ?F"
      then obtain f where f: "f \<in> set ?F" and h: "h = f_userName f" by auto
      from f ids obtain r where r: "r \<in> set (follows st')" and "user_id r = f_id f"
        by (metis (no_types, lifting) image_iff)
      moreover from origin [OF r] obtain g
        where "g \<in> set ?F" "user_id r = f_id g" "username r = f_userName g"
        by auto
      ultimately have "username r = f_userName f" using consistent f by metis
      with r h show "h \<in> username ` set (follows st')" by force
    qed
  qed
  from ids dist origin sub eq show ?thesis by blast
qed

text \<open>
  A run over two pages with three accounts, on a table that holds zed: the table ends
  with exactly the fetched ids and usernames, and zed is gone.
\<close>

theorem sync_table_matches_fetch_witness:
  "syncFollows tick
     [page_reply [account ''1'' ''alice'', account ''2'' ''bob''] True (Some ''c1''),
      page_reply [account ''3'' ''carol''] False None]
     ''me''
     \<lparr>follows = [plain_row ''9'' ''zed'' (Some ''old'') None], sync_log = []\<rparr> =
   Some (Inr \<lparr>synced = 3, pages = 2\<rparr>,
         \<lparr>follows = [synced_row ''1'' ''alice'' None None 1, synced_row ''2'' ''bob'' None None 1,
                     synced_row ''3'' ''carol'' None None 2],
          sync_log = [0]\<rparr>) \<and>
   user_id ` set [synced_row ''1'' ''alice'' None None 1, synced_row ''2'' ''bob'' None None 1,
                  synced_row ''3'' ''carol'' None None 2] =
     f_id ` set (fetched_follows ''me''
       [page_reply [account ''1'' ''alice'', account ''2'' ''bob''] True (Some ''c1''),
        page_reply [account ''3'' ''carol''] False None]) \<and>
   username ` set [synced_row ''1'' ''alice'' None None 1, synced_row ''2'' ''bob'' None None 1,
                   synced_row ''3'' ''carol'' None None 2] =
     f_userName ` set (fetched_follows ''me''
       [page_reply [account ''1'' ''alice'', account ''2'' ''bob''] True (Some ''c1''),
        page_reply [account ''3'' ''carol''] False None])"
proof -
  let ?up = "[page_reply [account ''1'' ''alice'', account ''2'' ''bob''] True (Some ''c1''),
      page_reply [account ''3'' ''carol''] False None]"
  let ?st = "\<lparr>follows = [plain_row ''9'' ''zed'' (Some ''old'') None], sync_log = []\<rparr>"
  let ?st' = "\<lparr>follows = [synced_row ''1'' ''alice'' None None 1, synced_row ''2'' ''bob'' None None 1,
                     synced_row ''3'' ''carol'' None None 2],
          sync_log = [0]\<rparr>"
  have run: "syncFollows tick ?up ''me'' ?st = Some (Inr \<lparr>synced = 3, pages = 2\<rparr>, ?st')"
    by (simp add: run_defs)
  have fetched: "fetched_follows ''me'' ?up =
      [account ''1'' ''alice'', account ''2'' ''bob'', account ''3'' ''carol'']"
    by (simp add: run_defs)
  have consistent: "\<forall>f\<in>set (fetched_follows ''me'' ?up). \<forall>g\<in>set (fetched_follows ''me'' ?up).
      f_id f = f_id g \<longrightarrow> f_userName f = f_userName g"
    unfolding fetched by (simp add: account_def)
  from sync_table_matches_fetch [OF run] consistent
  have "user_id ` set (follows ?st') = f_id ` set (fetched_follows ''me'' ?up)"
    and "username ` set (follows ?st') = f_userName ` set (fetched_follows ''me'' ?up)"
    by blast+
  then have "user_id ` set [synced_row ''1'' ''alice'' None None 1, synced_row ''2'' ''bob'' None None 1,
                  synced_row ''3'' ''carol'' None None 2] = f_id ` set (fetched_follows ''me'' ?up)"
    and "username ` set [synced_row ''1'' ''alice'' None None 1, synced_row ''2'' ''bob'' None None 1,
                  synced_row ''3'' ''carol'' None None 2] = f_userName ` set (fetched_follows ''me'' ?up)"
    by (simp_all only: store.simps)
  with run show ?thesis by (intro conjI)
qed

text \<open>
  C2 as stated fails: the account with id 1 is returned as alice on the first page and,
  renamed, as alice2 on the second. The run completes, the fetched pages contain the
  usernames alice and alice2, and the table holds alice2 only.
\<close>

theorem sync_replaces_renamed_account:
  "syncFollows tick
     [page_reply [account ''1'' ''alice''] True (Some ''c1''),
      page_reply [account ''1'' ''alice2''] False None]
     ''me'' \<lparr>follows = [], sync_log = []\<rparr> =
   Some (Inr \<lparr>synced = 2, pages = 2\<rparr>,
         \<lparr>follows = [synced_row ''1'' ''alice2'' None None 2], sync_log = [0]\<rparr>) \<and>
   map f_userName (fetched_follows ''me''
     [page_reply [account ''1'' ''alice''] True (Some ''c1''),
      page_reply [account ''1'' ''alice2''] False None]) = [''alice'', ''alice2''] \<and>
   map username [synced_row ''1'' ''alice2'' None None 2] = [''alice2'']"
  by (simp add: run_defs)

text \<open>
  C3 (as amended). For every page response received during a sync, the procedure
  fetches a further page if and only if the response supplies a pagination cursor AND
  (it indicates that more pages are available OR the page contained at least 200 account
  records); otherwise the loop stops and the procedure returns the total account count
  and the page count. The first part below is one iteration of the loop on a page; the
  second says that every page received before the last outcome of a run met the
  condition; the third, for the last page received, that the run returns the two counts
  when the page does not meet the condition, and that it goes on to a further request,
  which the upstream list does not answer, when it does.
\<close>

theorem sync_loop_condition:
  "(fetch_page (respond (followings_url u c)) = Inr data \<longrightarrow>
      sync_loop em clock u (respond # rest) c tot pc st =
        (if truthy (next_cursor data) \<and> (has_next_page data \<or> 200 \<le> length (page_follows data))
         then sync_loop em clock u rest (next_cursor data) (tot + length (page_follows data)) (pc + 1)
                (st\<lparr>follows := fold (insert_follow em (clock (pc + 1))) (page_follows data) (follows st)\<rparr>)
         else Some (Inr \<lparr>synced = tot + length (page_follows data), pages = pc + 1\<rparr>,
                st\<lparr>follows := fold (insert_follow em (clock (pc + 1))) (page_follows data) (follows st)\<rparr>))) \<and>
   (\<forall>i d. Suc i < length (received u up None) \<and> fetch_page (received u up None ! i) = Inr d \<longrightarrow>
      truthy (next_cursor d) \<and> (has_next_page d \<or> 200 \<le> length (page_follows d))) \<and>
   (\<forall>d. received u up None \<noteq> [] \<and> fetch_page (last (received u up None)) = Inr d \<longrightarrow>
      (if truthy (next_cursor d) \<and> (has_next_page d \<or> 200 \<le> length (page_follows d))
       then syncFollows clock up u st = None
       else \<exists>st'. syncFollows clock up u st =
              Some (Inr \<lparr>synced = length (fetched_follows u up),
                         pages = length (received u up None)\<rparr>, st')))"
proof -
  have step: "sync_loop em clock u (respond # rest) c tot pc st =
        (if truthy (next_cursor data) \<and> (has_next_page data \<or> 200 \<le> length (page_follows data))
         then sync_loop em clock u rest (next_cursor data) (tot + length (page_follows data)) (pc + 1)
                (st\<lparr>follows := fold (insert_follow em (clock (pc + 1))) (page_follows data) (follows st)\<rparr>)
         else Some (Inr \<lparr>synced = tot + length (page_follows data), pages = pc + 1\<rparr>,
                st\<lparr>follows := fold (insert_follow em (clock (pc + 1))) (page_follows data) (follows st)\<rparr>))"
    if "fetch_page (respond (followings_url u c)) = Inr data"
    using that by (auto simp: sync_loop_Cons loop_continues_def)
  have earlier: "truthy (next_cursor d) \<and> (has_next_page d \<or> 200 \<le> length (page_follows d))"
    if a: "Suc i < length (received u up None) \<and> fetch_page (received u up None ! i) = Inr d" for i d
  proof -
    from a have "Suc i < length (received u up None)" by blast
    then have "i < length (butlast (received u up None))" by simp
    then have "received u up None ! i \<in> set (butlast (received u up None))"
      by (metis nth_butlast nth_mem)
    from received_butlast [OF this] a have "loop_continues d" by auto
    then show ?thesis by (auto simp: loop_continues_def)
  qed
  have final: "if truthy (next_cursor d) \<and> (has_next_page d \<or> 200 \<le> length (page_follows d))
       then syncFollows clock up u st = None
       else \<exists>st'. syncFollows clock up u st =
              Some (Inr \<lparr>synced = length (fetched_follows u up),
                         pages = length (received u up None)\<rparr>, st')"
    if a: "received u up None \<noteq> [] \<and> fetch_page (last (received u up None)) = Inr d" for d
  proof (cases "loop_continues d")
    case True
    then have "syncFollows clock up u st = None"
      unfolding syncFollows_loop sync_loop_None using a by auto
    with True show ?thesis by (auto simp: loop_continues_def)
  next
    case False
    with a have "\<forall>data. fetch_page (last (received u up None)) = Inr data \<longrightarrow> \<not> loop_continues data"
      by auto
    with a sync_loop_returns [of u up None]
    obtain y where "syncFollows clock up u st = Some y"
      unfolding syncFollows_loop by blast
    then obtain out st' where run: "syncFollows clock up u st = Some (out, st')"
      by (cases y) auto
    from sync_loop_outcome [OF run [unfolded syncFollows_loop]] a
    have "out = Inr \<lparr>synced = length (fetched_follows u up), pages = length (received u up None)\<rparr>"
      by (simp add: fetched_follows_pages)
    with run False show ?thesis by (auto simp: loop_continues_def)
  qed
  from step earlier final show ?thesis by blast
qed

text \<open>
  A run over two pages: the first has a cursor and says that more pages follow, so the
  second is fetched; the second has neither, so the run returns 2 accounts and 2 pages.
\<close>

theorem sync_loop_condition_witness:
  "fetch_page (last (received ''me''
       [page_reply [account ''1'' ''alice''] True (Some ''c1''),
        page_reply [account ''2'' ''bob''] False None] None)) =
     Inr \<lparr>followings = Some [account ''2'' ''bob''], has_next_page = False, next_cursor = None\<rparr> \<and>
   (\<exists>st'. syncFollows tick
       [page_reply [account ''1'' ''alice''] True (Some ''c1''),
        page_reply [account ''2'' ''bob''] False None] ''me'' \<lparr>follows = [], sync_log = []\<rparr> =
     Some (Inr \<lparr>synced = 2, pages = 2\<rparr>, st'))"
proof -
  let ?up = "[page_reply [account ''1'' ''alice''] True (Some ''c1''),
        page_reply [account ''2'' ''bob''] False None]"
  let ?d = "\<lparr>followings = Some [account ''2'' ''bob''], has_next_page = False, next_cursor = None\<rparr>"
  have rec: "received ''me'' ?up None =
      [page_reply [account ''1'' ''alice''] True (Some ''c1'') (followings_url ''me'' None),
       page_reply [account ''2'' ''bob''] False None (followings_url ''me'' (Some ''c1''))]"
    by (simp add: run_defs)
  have lst: "fetch_page (last (received ''me'' ?up None)) = Inr ?d"
    unfolding rec by (simp add: run_defs)
  have stop: "\<not> (truthy (next_cursor ?d) \<and> (has_next_page ?d \<or> 200 \<le> length (page_follows ?d)))"
    by (simp add: truthy_def)
  have cnt: "length (fetched_follows ''me'' ?up) = 2" "length (received ''me'' ?up None) = 2"
    by (simp_all add: run_defs)
  from sync_loop_condition [where u = "''me''" and up = ?up and clock = tick
      and st = "\<lparr>follows = [], sync_log = []\<rparr>"]
  have "\<forall>d. received ''me'' ?up None \<noteq> [] \<and> fetch_page (last (received ''me'' ?up None)) = Inr d \<longrightarrow>
      (if truthy (next_cursor d) \<and> (has_next_page d \<or> 200 \<le> length (page_follows d))
       then syncFollows tick ?up ''me'' \<lparr>follows = [], sync_log = []\<rparr> = None
       else \<exists>st'. syncFollows tick ?up ''me'' \<lparr>follows = [], sync_log = []\<rparr> =
              Some (Inr \<lparr>synced = length (fetched_follows ''me'' ?up),
                         pages = length (received ''me'' ?up None)\<rparr>, st'))"
    by blast
  with lst stop cnt rec show ?thesis
    by (metis (no_types, lifting) list.distinct(1))
qed

text \<open>
  C3 as stated fails: the first page holds 200 account records, says that no more pages
  follow and supplies no cursor. By the claim a further page is fetched; the run stops
  after this page, with one outcome received and 200 accounts in one page returned.
\<close>

theorem sync_stops_without_cursor:
  "length (page_follows \<lparr>followings = Some (replicate 200 (account ''1'' ''alice'')),
                         has_next_page = False, next_cursor = None\<rparr>) = 200 \<and>
   length (received ''me''
     [page_reply (replicate 200 (account ''1'' ''alice'')) False None,
      page_reply [account ''2'' ''bob''] False None] None) = 1 \<and>
   map_option fst (syncFollows tick
     [page_reply (replicate 200 (account ''1'' ''alice'')) False None,
      page_reply [account ''2'' ''bob''] False None] ''me'' \<lparr>follows = [], sync_log = []\<rparr>) =
     Some (Inr \<lparr>synced = 200, pages = 1\<rparr>)"
  by (simp add: run_defs)

text \<open>
  C5. For every sync run in which some page fetch returns a non-success HTTP status
  (the outcomes received by the run end with such a response): the procedure throws the
  error of that status, and the store after the throw holds the SyncEvent recorded at
  the start of the run and the table built from the pages fetched before the failing
  one, whose ids are exactly the ids on those pages. The rate-limit window is consumed:
  a request of a handle other than the privileged one is not allowed to sync as long as
  that SyncEvent is at most 24 hours old.
\<close>

theorem failed_fetch_keeps_writes:
  assumes rec: "received u up None = outs @ [Received response]"
    and bad: "\<not> response_ok response"
  shows "syncFollows clock up u st =
           Some (Inl (FetchFailed (status response)),
                 \<lparr>follows = insert_pages (existingMap (follows st)) clock 0 (pages_of outs) [],
                  sync_log = sync_log st @ [clock 0]\<rparr>) \<and>
         user_id ` set (insert_pages (existingMap (follows st)) clock 0 (pages_of outs) []) =
           f_id ` set (concat (map page_follows (pages_of outs))) \<and>
         (\<forall>now uname. uname \<noteq> ''janwilmake'' \<and> now - 24 * 60 * 60 * 1000 \<le> clock 0 \<longrightarrow>
            \<not> canSync
                (getLastSyncTime
                   \<lparr>follows = insert_pages (existingMap (follows st)) clock 0 (pages_of outs) [],
                    sync_log = sync_log st @ [clock 0]\<rparr>) now uname)"
proof -
  have fp: "fetch_page (Received response) = Inl (FetchFailed (status response))"
    using bad by (simp add: fetch_page_def)
  have ne: "received u up None \<noteq> []" by (simp add: rec)
  have lst: "\<forall>data. fetch_page (last (received u up None)) = Inr data \<longrightarrow> \<not> loop_continues data"
    by (simp add: rec fp)
  from sync_loop_returns [OF ne lst]
  obtain y where "syncFollows clock up u st = Some y"
    unfolding syncFollows_loop by blast
  then obtain out st' where run: "syncFollows clock up u st = Some (out, st')"
    by (cases y) auto
  have "out = Inl (FetchFailed (status response))"
    using sync_loop_outcome [OF run [unfolded syncFollows_loop]] by (simp add: rec fp)
  moreover have "pages_of (received u up None) = pages_of outs"
    by (simp add: rec pages_of_append pages_of_Cons fp)
  ultimately have result: "syncFollows clock up u st =
           Some (Inl (FetchFailed (status response)),
                 \<lparr>follows = insert_pages (existingMap (follows st)) clock 0 (pages_of outs) [],
                  sync_log = sync_log st @ [clock 0]\<rparr>)"
    using syncFollows_store [OF run] run by simp
  have ids: "user_id ` set (insert_pages (existingMap (follows st)) clock 0 (pages_of outs) []) =
           f_id ` set (concat (map page_follows (pages_of outs)))"
    by (simp add: ids_insert_pages)
  have window: "\<not> canSync
                (getLastSyncTime
                   \<lparr>follows = insert_pages (existingMap (follows st)) clock 0 (pages_of outs) [],
                    sync_log = sync_log st @ [clock 0]\<rparr>) now uname"
    if "uname \<noteq> ''janwilmake'' \<and> now - 24 * 60 * 60 * 1000 \<le> clock 0" for now uname
  proof -
    have "clock 0 \<le> Max (set (sync_log st @ [clock 0]))"
      by (rule Max_ge) simp_all
    with that show ?thesis
      by (simp add: canSync_def getLastSyncTime_Max del: Max_less_iff set_append)
  qed
  from result ids window show ?thesis by blast
qed

text \<open>
  A run whose second request is answered with status 500: the error is thrown, the
  SyncEvent of time 0 is in the log after the earlier one, and alice, from the first
  page, is in the table.
\<close>

theorem failed_fetch_keeps_writes_witness:
  "syncFollows tick
     [page_reply [account ''1'' ''alice''] True (Some ''c1''), status_reply 500] ''me''
     \<lparr>follows = [plain_row ''9'' ''zed'' None None], sync_log = [-5]\<rparr> =
   Some (Inl (FetchFailed 500),
         \<lparr>follows = [synced_row ''1'' ''alice'' None None 1], sync_log = [-5, 0]\<rparr>) \<and>
   \<not> response_ok \<lparr>status = 500, body = None\<rparr>"
proof -
  let ?up = "[page_reply [account ''1'' ''alice''] True (Some ''c1''), status_reply 500]"
  let ?outs = "[page_reply [account ''1'' ''alice''] True (Some ''c1'') (followings_url ''me'' None)]"
  let ?response = "\<lparr>status = 500, body = None :: followings_page option\<rparr>"
  have rec: "received ''me'' ?up None = ?outs @ [Received ?response]"
    by (simp add: run_defs)
  have bad: "\<not> response_ok ?response"
    by (simp add: response_ok_def)
  have tbl: "insert_pages (existingMap [plain_row ''9'' ''zed'' None None]) tick 0 (pages_of ?outs) [] =
      [synced_row ''1'' ''alice'' None None 1]"
    by (simp add: run_defs)
  from failed_fetch_keeps_writes [OF rec bad, of tick
      "\<lparr>follows = [plain_row ''9'' ''zed'' None None], sync_log = [-5]\<rparr>"] bad
  show ?thesis
    by (simp add: tbl tick_def)
qed


section \<open>The rate limit of /sync\<close>

text \<open>
  C4. For every authenticated sync request (the API key is configured, the context is
  authenticated and names a user with an id): the sync runs if and only if there is no
  prior SyncEvent, or the most recent SyncEvent is more than 24 hours old, or the
  requester's handle is the privileged handle janwilmake; otherwise the request is
  rejected with status 429 and the number of hours remaining until eligibility, rounded
  up to whole hours, and the store is unchanged. With the most recent SyncEvent exactly
  10 hours old and another handle the reported value is 14; with it 25 hours old the
  sync runs.
\<close>

theorem sync_rate_limit:
  assumes "TWITTER_API_KEY e \<noteq> []" and "authenticated ctx"
    and "user ctx = Some usr" and "u_id usr \<noteq> []"
  shows "handle_sync e ctx now clock up st =
           (if sync_log st = [] \<or> Max (set (sync_log st)) < now - 24 * 60 * 60 * 1000
               \<or> u_username usr = ''janwilmake''
            then map_option (\<lambda>run. (sync_reply (fst run), snd run))
                   (syncFollows clock up (u_username usr) st)
            else Some (Reply 429
                   (RateLimitJson
                      \<lceil>real_of_int (Max (set (sync_log st)) + 24 * 60 * 60 * 1000 - now) / (60 * 60 * 1000)\<rceil>
                      (Max (set (sync_log st)))), st)) \<and>
         (sync_log st \<noteq> [] \<and> Max (set (sync_log st)) = now - 10 * 60 * 60 * 1000
            \<and> u_username usr \<noteq> ''janwilmake'' \<longrightarrow>
          handle_sync e ctx now clock up st =
            Some (Reply 429 (RateLimitJson 14 (now - 10 * 60 * 60 * 1000)), st)) \<and>
         (sync_log st \<noteq> [] \<and> Max (set (sync_log st)) = now - 25 * 60 * 60 * 1000 \<longrightarrow>
          handle_sync e ctx now clock up st =
            map_option (\<lambda>run. (sync_reply (fst run), snd run))
              (syncFollows clock up (u_username usr) st))"
proof -
  have gen: "handle_sync e ctx now clock up st =
           (if sync_log st = [] \<or> Max (set (sync_log st)) < now - 24 * 60 * 60 * 1000
               \<or> u_username usr = ''janwilmake''
            then map_option (\<lambda>run. (sync_reply (fst run), snd run))
                   (syncFollows clock up (u_username usr) st)
            else Some (Reply 429
                   (RateLimitJson
                      \<lceil>real_of_int (Max (set (sync_log st)) + 24 * 60 * 60 * 1000 - now) / (60 * 60 * 1000)\<rceil>
                      (Max (set (sync_log st)))), st))"
    using assms
    by (simp add: handle_sync_def getUserDO_def getLastSyncTime_Max canSync_def
          hoursUntilNextSync_def Let_def del: Max_less_iff)
  have ten: "\<lceil>real_of_int (now - 10 * 60 * 60 * 1000 + 24 * 60 * 60 * 1000 - now) / (60 * 60 * 1000)\<rceil> = (14::int)"
    by simp
  show ?thesis
    unfolding gen using ten by (simp del: Max_less_iff)
qed

text \<open>
  At hour 100, bob's last SyncEvent is of hour 90: the request is rejected with 14 hours
  remaining. With the last SyncEvent of hour 75 the sync runs and returns its counts.
\<close>

theorem sync_rate_limit_witness:
  "handle_sync \<lparr>TWITTER_API_KEY = ''key''\<rparr> signed_in (100 * 3600000) tick
     [page_reply [account ''1'' ''alice''] False None]
     \<lparr>follows = [], sync_log = [20 * 3600000, 90 * 3600000]\<rparr> =
   Some (Reply 429 (RateLimitJson 14 (90 * 3600000)),
         \<lparr>follows = [], sync_log = [20 * 3600000, 90 * 3600000]\<rparr>) \<and>
   handle_sync \<lparr>TWITTER_API_KEY = ''key''\<rparr> signed_in (100 * 3600000) tick
     [page_reply [account ''1'' ''alice''] False None]
     \<lparr>follows = [], sync_log = [75 * 3600000]\<rparr> =
   Some (Reply 200 (SyncJson \<lparr>synced = 1, pages = 1\<rparr>),
         \<lparr>follows = [synced_row ''1'' ''alice'' None None 1], sync_log = [75 * 3600000, 0]\<rparr>)"
proof -
  let ?e = "\<lparr>TWITTER_API_KEY = ''key''\<rparr>"
  let ?usr = "\<lparr>u_id = ''7'', u_username = ''bob''\<rparr>"
  let ?up = "[page_reply [account ''1'' ''alice''] False None]"
  have pre: "TWITTER_API_KEY ?e \<noteq> []" "authenticated signed_in" "user signed_in = Some ?usr"
    "u_id ?usr \<noteq> []"
    by (simp_all add: signed_in_def)
  have run: "syncFollows tick ?up ''bob'' \<lparr>follows = [], sync_log = [75 * 3600000]\<rparr> =
      Some (Inr \<lparr>synced = 1, pages = 1\<rparr>,
            \<lparr>follows = [synced_row ''1'' ''alice'' None None 1], sync_log = [75 * 3600000, 0]\<rparr>)"
    by (simp add: run_defs)
  from sync_rate_limit [OF pre, of "100 * 3600000" tick ?up
      "\<lparr>follows = [], sync_log = [20 * 3600000, 90 * 3600000]\<rparr>"]
    sync_rate_limit [OF pre, of "100 * 3600000" tick ?up
      "\<lparr>follows = [], sync_log = [75 * 3600000]\<rparr>"] run
  show ?thesis
    by (simp add: sync_reply_def)
qed


section \<open>The contact store\<close>



text \<open>
  The UPDATE of removeTag is keyed on the handle. On a table where two rows share a
  handle and differ in their tags, which no state of the store is, the row with the tags
  "friend" would lose them to the rewrite of the row with the tags "vip".
\<close>

lemma removeTag_keyed_on_handle:
  "removeTag ul ''vip''
     \<lparr>follows = [plain_row ''1'' ''alice'' None (Some ''friend''),
                 plain_row ''2'' ''alice'' None (Some ''vip'')],
      sync_log = []\<rparr> =
   (\<lparr>removed = 1, tag = ''vip''\<rparr>,
    \<lparr>follows = [plain_row ''1'' ''alice'' None None, plain_row ''2'' ''alice'' None None],
     sync_log = []\<rparr>) \<and>
   \<not> sublist ''vip'' (map ascii_tolower ''friend'')"
  by (simp add: store_defs sublist_Cons_right)

text \<open>
  C7. For every call updateContact(handle, note?, tags?): if neither note nor tags is
  supplied, the call returns updated:false with the error "No updates provided" and the
  store is untouched. Otherwise every row with the given handle has exactly the supplied
  fields overwritten, an undefined field keeps its value, all other rows are unchanged,
  and the call returns updated:true if some row has the handle and updated:false if
  none has.
\<close>

theorem updateContact_fields:
  "updateContact uname note_arg tags_arg st =
     (if note_arg = Undefined \<and> tags_arg = Undefined
      then (\<lparr>updated = False, error = Some ''No updates provided''\<rparr>, st)
      else (\<lparr>updated = (uname \<in> username ` set (follows st)), error = None\<rparr>,
            st\<lparr>follows :=
                 map (\<lambda>r. if username r = uname
                          then r\<lparr>note := (case note_arg of Undefined \<Rightarrow> note r | Given v \<Rightarrow> v),
                                 tags := (case tags_arg of Undefined \<Rightarrow> tags r | Given v \<Rightarrow> v)\<rparr>
                          else r) (follows st)\<rparr>))"
  by (cases note_arg; cases tags_arg)
     (simp_all add: updateContact_def Let_def fst_sql_update snd_sql_update_pos)

text \<open>
  Setting only the note of alice keeps her tags and leaves bob as he is; a call for a
  handle that is not in the table returns updated:false.
\<close>

theorem updateContact_fields_witness:
  "updateContact ''alice'' (Given (Some ''call back'')) Undefined
     \<lparr>follows = [plain_row ''1'' ''alice'' None (Some ''vip''), plain_row ''2'' ''bob'' (Some ''n'') None],
      sync_log = []\<rparr> =
   (\<lparr>updated = True, error = None\<rparr>,
    \<lparr>follows = [plain_row ''1'' ''alice'' (Some ''call back'') (Some ''vip''),
                plain_row ''2'' ''bob'' (Some ''n'') None],
     sync_log = []\<rparr>) \<and>
   updateContact ''carol'' Undefined (Given (Some ''x''))
     \<lparr>follows = [plain_row ''1'' ''alice'' None (Some ''vip'')], sync_log = []\<rparr> =
   (\<lparr>updated = False, error = None\<rparr>,
    \<lparr>follows = [plain_row ''1'' ''alice'' None (Some ''vip'')], sync_log = []\<rparr>)"
  using updateContact_fields [of "''alice''" "Given (Some ''call back'')" Undefined
      "\<lparr>follows = [plain_row ''1'' ''alice'' None (Some ''vip''), plain_row ''2'' ''bob'' (Some ''n'') None],
        sync_log = []\<rparr>"]
    updateContact_fields [of "''carol''" Undefined "Given (Some ''x'')"
      "\<lparr>follows = [plain_row ''1'' ''alice'' None (Some ''vip'')], sync_log = []\<rparr>"]
  by (simp add: plain_row_def)

text \<open>
  C8. At the HTTP single-contact update endpoint an omitted query parameter reaches
  updateContact as null, not undefined. For every request that passes the guards of the
  handler (API key configured, authenticated, user id present, non-empty username in the
  path), the reply is the result of an update, never the "No updates provided" error:
  every row of the handle gets note and tags set to the two parameters as they are, so a
  request with neither ?note nor ?tags sets both columns to null, and a request with one
  of them sets the other column to null; updated is true when a row has the handle.
\<close>

theorem contact_endpoint_null_params:
  assumes "TWITTER_API_KEY e \<noteq> []" and "authenticated ctx"
    and "user ctx = Some usr" and "u_id usr \<noteq> []" and "uname \<noteq> []"
  shows "handle_contact e ctx uname note_param tags_param st =
           (Reply 200 (UpdateJson \<lparr>updated = (uname \<in> username ` set (follows st)), error = None\<rparr>),
            st\<lparr>follows :=
                 map (\<lambda>r. if username r = uname then r\<lparr>note := note_param, tags := tags_param\<rparr> else r)
                   (follows st)\<rparr>)"
  using assms
  by (simp add: handle_contact_def getUserDO_def updateContact_def Let_def fst_sql_update
        snd_sql_update_pos)

text \<open>
  A POST to /contact/alice without parameters clears alice's note and tags; with
  ?tags=vip only, it sets the tags and clears the note.
\<close>

theorem contact_endpoint_null_params_witness:
  "handle_contact \<lparr>TWITTER_API_KEY = ''key''\<rparr> signed_in ''alice'' None None
     \<lparr>follows = [plain_row ''1'' ''alice'' (Some ''met in Oslo'') (Some ''friend'')], sync_log = []\<rparr> =
   (Reply 200 (UpdateJson \<lparr>updated = True, error = None\<rparr>),
    \<lparr>follows = [plain_row ''1'' ''alice'' None None], sync_log = []\<rparr>) \<and>
   handle_contact \<lparr>TWITTER_API_KEY = ''key''\<rparr> signed_in ''alice'' None (Some ''vip'')
     \<lparr>follows = [plain_row ''1'' ''alice'' (Some ''met in Oslo'') (Some ''friend'')], sync_log = []\<rparr> =
   (Reply 200 (UpdateJson \<lparr>updated = True, error = None\<rparr>),
    \<lparr>follows = [plain_row ''1'' ''alice'' None (Some ''vip'')], sync_log = []\<rparr>)"
proof -
  let ?e = "\<lparr>TWITTER_API_KEY = ''key''\<rparr>"
  let ?usr = "\<lparr>u_id = ''7'', u_username = ''bob''\<rparr>"
  let ?st = "\<lparr>follows = [plain_row ''1'' ''alice'' (Some ''met in Oslo'') (Some ''friend'')], sync_log = []\<rparr>"
  have pre: "TWITTER_API_KEY ?e \<noteq> []" "authenticated signed_in" "user signed_in = Some ?usr"
    "u_id ?usr \<noteq> []" "''alice'' \<noteq> []"
    by (simp_all add: signed_in_def)
  from contact_endpoint_null_params [OF pre, of None None ?st]
    contact_endpoint_null_params [OF pre, of None "Some ''vip''" ?st]
  show ?thesis
    by (simp add: plain_row_def)
qed

text \<open>
  C9. For every call to updateContact, updateBulk or removeTag: the rows of the follows
  table after the call are, position by position, the rows before it in all columns other
  than note and tags (user_id, username, name, profile_image_url, description,
  followers_count, following_count, verified_type, is_blue_verified, location,
  created_at, synced_at); so no row is inserted or deleted and the usernames present are
  the same.
\<close>

theorem updates_frame:
  "(map (\<lambda>r. r\<lparr>note := None, tags := None\<rparr>) (follows (snd (updateContact uname note_arg tags_arg st))) =
      map (\<lambda>r. r\<lparr>note := None, tags := None\<rparr>) (follows st) \<and>
    map username (follows (snd (updateContact uname note_arg tags_arg st))) = map username (follows st)) \<and>
   (map (\<lambda>r. r\<lparr>note := None, tags := None\<rparr>) (follows (snd (updateBulk updates st))) =
      map (\<lambda>r. r\<lparr>note := None, tags := None\<rparr>) (follows st) \<and>
    map username (follows (snd (updateBulk updates st))) = map username (follows st)) \<and>
   (map (\<lambda>r. r\<lparr>note := None, tags := None\<rparr>) (follows (snd (removeTag ul tagToRemove st))) =
      map (\<lambda>r. r\<lparr>note := None, tags := None\<rparr>) (follows st) \<and>
    map username (follows (snd (removeTag ul tagToRemove st))) = map username (follows st))"
proof -
  have names: "map username xs = map username ys"
    if "map (\<lambda>r. r\<lparr>note := None, tags := None\<rparr>) xs = map (\<lambda>r. r\<lparr>note := None, tags := None\<rparr>) ys"
    for xs ys :: "follow_row list"
  proof -
    have "map username (map (\<lambda>r. r\<lparr>note := None, tags := None\<rparr>) xs) =
          map username (map (\<lambda>r. r\<lparr>note := None, tags := None\<rparr>) ys)"
      using that by simp
    then show ?thesis by (simp add: o_def)
  qed
  have a: "map (\<lambda>r. r\<lparr>note := None, tags := None\<rparr>) (follows (snd (updateContact uname note_arg tags_arg st))) =
      map (\<lambda>r. r\<lparr>note := None, tags := None\<rparr>) (follows st)"
    by (simp add: updateContact_def Let_def frame_sql_update)
  have b: "map (\<lambda>r. r\<lparr>note := None, tags := None\<rparr>) (follows (snd (updateBulk updates st))) =
      map (\<lambda>r. r\<lparr>note := None, tags := None\<rparr>) (follows st)"
    by (simp add: updateBulk_def updateBulk_loop_frame)
  have c: "map (\<lambda>r. r\<lparr>note := None, tags := None\<rparr>) (follows (snd (removeTag ul tagToRemove st))) =
      map (\<lambda>r. r\<lparr>note := None, tags := None\<rparr>) (follows st)"
    by (simp add: removeTag_def Let_def removeTag_loop_frame)
  from a b c names [OF a] names [OF b] names [OF c] show ?thesis by blast
qed

text \<open>
  C10. The tag filter of getFollows and the row selection of removeTag put the caller's
  tag between two \<open>%\<close> of a LIKE pattern as it is. With the filter \<open>a%b\<close> the row of
  alice, whose tags are \<open>aXb\<close>, is returned by getFollows and selected by removeTag,
  although \<open>a%b\<close> is not a substring of \<open>aXb\<close>, in either case of the letters.
\<close>

theorem like_metacharacters_select:
  "getFollows (Some ''a%b'') \<lparr>follows = [plain_row ''1'' ''alice'' None (Some ''aXb'')], sync_log = []\<rparr> =
     [plain_row ''1'' ''alice'' None (Some ''aXb'')] \<and>
   removeTag_select ''a%b'' [plain_row ''1'' ''alice'' None (Some ''aXb'')] =
     [plain_row ''1'' ''alice'' None (Some ''aXb'')] \<and>
   \<not> sublist ''a%b'' ''aXb'' \<and>
   \<not> sublist (toLowerCase ul ''a%b'') (toLowerCase ul ''aXb'')"
  by (simp add: getFollows_def removeTag_select_def tags_like_def plain_row_def
        order_by_followers_count_desc_def toLowerCase_def ascii_tolower_def skip_utf8_def
        is_continuation_def sublist_Cons_right)

end
